theory Spec2Isabelle
  imports
    Main
    "HOL-Library.Multiset"
    "HOL-Library.Char_ord"
    "HOL-Library.List_Lexorder"
    "HOL-Library.Product_Lexorder"
    "HOL-Library.Option_ord"
begin

section \<open>Strings\<close>

text \<open>
  A Go string is a sequence of bytes; it is modelled as a \<^typ>\<open>string\<close>, a list of
  8-bit characters, compared bytewise (the order of \<^verbatim>\<open>HOL-Library.Char_ord\<close> and
  \<^verbatim>\<open>HOL-Library.List_Lexorder\<close> is Go's \<^verbatim>\<open><\<close> on strings). The functions of package
  \<^verbatim>\<open>strings\<close> that the program calls are written out on that representation.
\<close>

definition HasPrefix :: "string \<Rightarrow> string \<Rightarrow> bool" where
  \<comment> \<open>\<^verbatim>\<open>strings.HasPrefix(s, prefix)\<close>: \<^verbatim>\<open>len(s) >= len(prefix) && s[:len(prefix)] == prefix\<close>\<close>
  "HasPrefix s p = (length p \<le> length s \<and> take (length p) s = p)"


fun Join :: "string list \<Rightarrow> string \<Rightarrow> string" where
  \<comment> \<open>\<^verbatim>\<open>strings.Join(elems, sep)\<close>\<close>
  "Join [] sep = []"
| "Join [e] sep = e"
| "Join (e # es) sep = e @ sep @ Join es sep"

fun Contains :: "string \<Rightarrow> string \<Rightarrow> bool" where
  \<comment> \<open>\<^verbatim>\<open>strings.Contains(s, substr)\<close>: \<open>substr\<close> starts at some position of \<open>s\<close>; the
      program does not call it, the statements about package names do\<close>
  "Contains [] sub = (sub = [])"
| "Contains (c # cs) sub = (HasPrefix (c # cs) sub \<or> Contains cs sub)"

function ReplaceAll :: "string \<Rightarrow> string \<Rightarrow> string \<Rightarrow> string" where
  \<comment> \<open>\<^verbatim>\<open>strings.ReplaceAll(s, old, new)\<close>: the non-overlapping occurrences of \<open>old\<close>,
      found from left to right, are replaced by \<open>new\<close>. For an empty \<open>old\<close> Go inserts
      \<open>new\<close> before every UTF-8 sequence and at the end; that case is written here for
      single-byte characters, and the program never passes an empty \<open>old\<close>.\<close>
  "ReplaceAll s old new =
     (if old = [] then new @ concat (map (\<lambda>c. c # new) s)
      else if s = [] then []
      else if HasPrefix s old then new @ ReplaceAll (drop (length old) s) old new
      else hd s # ReplaceAll (tl s) old new)"
  by pat_completeness auto
termination
  by (relation "measure (\<lambda>(s, old, new). length s)") (auto simp: neq_Nil_conv)

declare ReplaceAll.simps [simp del]


section \<open>Semantic versions: package \<^verbatim>\<open>golang.org/x/mod/semver\<close>\<close>

text \<open>
  The program orders versions with \<^verbatim>\<open>semver.Compare\<close> and takes the major component with
  \<^verbatim>\<open>semver.Major\<close>. Both are functions of the library's parser, which is transcribed here
  function by function.
\<close>

record parsed =
  major :: string
  minor :: string
  patch :: string
  short :: string
  prerelease :: string
  build :: string

definition isDigit :: "char \<Rightarrow> bool" where
  \<comment> \<open>\<^verbatim>\<open>'0' <= c && c <= '9'\<close>\<close>
  "isDigit c = (CHR ''0'' \<le> c \<and> c \<le> CHR ''9'')"

definition isIdentChar :: "char \<Rightarrow> bool" where
  "isIdentChar c =
     (CHR ''A'' \<le> c \<and> c \<le> CHR ''Z'' \<or> CHR ''a'' \<le> c \<and> c \<le> CHR ''z''
      \<or> CHR ''0'' \<le> c \<and> c \<le> CHR ''9'' \<or> c = CHR ''-'')"

definition digits :: "string \<Rightarrow> nat" where
  \<comment> \<open>the index at which the loop \<^verbatim>\<open>for i < len(v) && '0' <= v[i] && v[i] <= '9' { i++ }\<close>
      stops when it starts at 0\<close>
  "digits v = length (takeWhile isDigit v)"

definition isBadNum :: "string \<Rightarrow> bool" where
  "isBadNum v = (let i = digits v in i = length v \<and> i > 1 \<and> hd v = CHR ''0'')"

definition isNum :: "string \<Rightarrow> bool" where
  "isNum v = (let i = digits v in i = length v)"

definition slice :: "string \<Rightarrow> nat \<Rightarrow> nat \<Rightarrow> string" where
  \<comment> \<open>\<^verbatim>\<open>v[a:b]\<close> for \<open>a \<le> b \<le> len(v)\<close>\<close>
  "slice v a b = take (b - a) (drop a v)"

definition parseInt :: "string \<Rightarrow> (string \<times> string) option" where
  \<comment> \<open>\<open>None\<close> is the result \<^verbatim>\<open>ok == false\<close>. The loop of the source starts at 1 after the
      test that \<^verbatim>\<open>v[0]\<close> is a digit, and stops where \<open>digits\<close> does.\<close>
  "parseInt v =
     (if v = [] then None
      else if hd v < CHR ''0'' \<or> CHR ''9'' < hd v then None
      else let i = digits v in
        if hd v = CHR ''0'' \<and> i \<noteq> 1 then None
        else Some (take i v, drop i v))"

function parsePrerelease_loop :: "string \<Rightarrow> nat \<Rightarrow> nat \<Rightarrow> nat option" where
  \<comment> \<open>the loop of \<^verbatim>\<open>parsePrerelease\<close> over \<open>i\<close> and \<open>start\<close>, with the test after it;
      the result is the final \<open>i\<close>\<close>
  "parsePrerelease_loop v i start =
     (if i < length v \<and> v ! i \<noteq> CHR ''+'' then
        if \<not> isIdentChar (v ! i) \<and> v ! i \<noteq> CHR ''.'' then None
        else if v ! i = CHR ''.'' then
          if start = i \<or> isBadNum (slice v start i) then None
          else parsePrerelease_loop v (i + 1) (i + 1)
        else parsePrerelease_loop v (i + 1) start
      else if start = i \<or> isBadNum (slice v start i) then None
      else Some i)"
  by pat_completeness auto
termination
  by (relation "measure (\<lambda>(v, i, start). length v - i)") auto

declare parsePrerelease_loop.simps [simp del]

definition parsePrerelease :: "string \<Rightarrow> (string \<times> string) option" where
  "parsePrerelease v =
     (if v = [] \<or> hd v \<noteq> CHR ''-'' then None
      else case parsePrerelease_loop v 1 1 of
        None \<Rightarrow> None
      | Some i \<Rightarrow> Some (take i v, drop i v))"

function parseBuild_loop :: "string \<Rightarrow> nat \<Rightarrow> nat \<Rightarrow> nat option" where
  "parseBuild_loop v i start =
     (if i < length v then
        if \<not> isIdentChar (v ! i) \<and> v ! i \<noteq> CHR ''.'' then None
        else if v ! i = CHR ''.'' then
          if start = i then None
          else parseBuild_loop v (i + 1) (i + 1)
        else parseBuild_loop v (i + 1) start
      else if start = i then None
      else Some i)"
  by pat_completeness auto
termination
  by (relation "measure (\<lambda>(v, i, start). length v - i)") auto

declare parseBuild_loop.simps [simp del]

definition parseBuild :: "string \<Rightarrow> (string \<times> string) option" where
  "parseBuild v =
     (if v = [] \<or> hd v \<noteq> CHR ''+'' then None
      else case parseBuild_loop v 1 1 of
        None \<Rightarrow> None
      | Some i \<Rightarrow> Some (take i v, drop i v))"

definition parse :: "string \<Rightarrow> parsed option" where
  \<comment> \<open>\<open>None\<close> is the result \<^verbatim>\<open>ok == false\<close>\<close>
  "parse v =
     (if v = [] \<or> hd v \<noteq> CHR ''v'' then None
      else case parseInt (tl v) of
        None \<Rightarrow> None
      | Some (p_major, v1) \<Rightarrow>
          if v1 = [] then
            Some \<lparr>major = p_major, minor = ''0'', patch = ''0'', short = ''.0.0'',
                  prerelease = [], build = []\<rparr>
          else if hd v1 \<noteq> CHR ''.'' then None
          else case parseInt (tl v1) of
            None \<Rightarrow> None
          | Some (p_minor, v2) \<Rightarrow>
              if v2 = [] then
                Some \<lparr>major = p_major, minor = p_minor, patch = ''0'', short = ''.0'',
                      prerelease = [], build = []\<rparr>
              else if hd v2 \<noteq> CHR ''.'' then None
              else case parseInt (tl v2) of
                None \<Rightarrow> None
              | Some (p_patch, v3) \<Rightarrow>
                  (let r3 = (if v3 \<noteq> [] \<and> hd v3 = CHR ''-'' then parsePrerelease v3
                             else Some ([], v3))
                   in case r3 of
                    None \<Rightarrow> None
                  | Some (p_prerelease, v4) \<Rightarrow>
                      (let r4 = (if v4 \<noteq> [] \<and> hd v4 = CHR ''+'' then parseBuild v4
                                 else Some ([], v4))
                       in case r4 of
                        None \<Rightarrow> None
                      | Some (p_build, v5) \<Rightarrow>
                          if v5 \<noteq> [] then None
                          else Some \<lparr>major = p_major, minor = p_minor, patch = p_patch,
                                     short = [], prerelease = p_prerelease,
                                     build = p_build\<rparr>)))"

definition Major :: "string \<Rightarrow> string" where
  \<comment> \<open>\<^verbatim>\<open>semver.Major(v)\<close>: \<^verbatim>\<open>v[:1+len(pv.major)]\<close>, or the empty string for an invalid \<open>v\<close>\<close>
  "Major v = (case parse v of None \<Rightarrow> [] | Some pv \<Rightarrow> take (1 + length (major pv)) v)"

definition compareInt :: "string \<Rightarrow> string \<Rightarrow> int" where
  "compareInt x y =
     (if x = y then 0
      else if length x < length y then -1
      else if length x > length y then 1
      else if x < y then -1
      else 1)"

definition nextIdent :: "string \<Rightarrow> string \<times> string" where
  \<comment> \<open>\<^verbatim>\<open>x[:i], x[i:]\<close> for the first \<open>i\<close> with \<^verbatim>\<open>x[i] == '.'\<close>, or \<open>len(x)\<close>\<close>
  "nextIdent x = (takeWhile (\<lambda>c. c \<noteq> CHR ''.'') x, dropWhile (\<lambda>c. c \<noteq> CHR ''.'') x)"

definition compareIdent :: "string \<Rightarrow> string \<Rightarrow> int" where
  \<comment> \<open>the body of \<^verbatim>\<open>if dx != dy { ... }\<close> in \<^verbatim>\<open>comparePrerelease\<close>\<close>
  "compareIdent dx dy =
     (let ix = isNum dx; iy = isNum dy in
      if ix \<noteq> iy then (if ix then -1 else 1)
      else if ix \<and> length dx < length dy then -1
      else if ix \<and> length dx > length dy then 1
      else if dx < dy then -1
      else 1)"

function comparePrerelease_loop :: "string \<Rightarrow> string \<Rightarrow> int" where
  \<comment> \<open>the loop \<^verbatim>\<open>for x != "" && y != ""\<close> with the test after it\<close>
  "comparePrerelease_loop x y =
     (if x \<noteq> [] \<and> y \<noteq> [] then
        let (dx, x') = nextIdent (tl x); (dy, y') = nextIdent (tl y) in
        if dx \<noteq> dy then compareIdent dx dy
        else comparePrerelease_loop x' y'
      else if x = [] then -1
      else 1)"
  by pat_completeness auto
termination
  by (relation "measure (\<lambda>(x, y). length x)")
     (auto simp: nextIdent_def neq_Nil_conv less_Suc_eq_le length_dropWhile_le)

declare comparePrerelease_loop.simps [simp del]

definition comparePrerelease :: "string \<Rightarrow> string \<Rightarrow> int" where
  "comparePrerelease x y =
     (if x = y then 0
      else if x = [] then 1
      else if y = [] then -1
      else comparePrerelease_loop x y)"

definition Compare :: "string \<Rightarrow> string \<Rightarrow> int" where
  \<comment> \<open>\<^verbatim>\<open>semver.Compare(v, w)\<close>: an invalid version is less than a valid one and equal to
      every invalid one; the build suffix is not compared\<close>
  "Compare v w =
     (case (parse v, parse w) of
        (None, None) \<Rightarrow> 0
      | (None, Some pw) \<Rightarrow> -1
      | (Some pv, None) \<Rightarrow> 1
      | (Some pv, Some pw) \<Rightarrow>
          if compareInt (major pv) (major pw) \<noteq> 0 then compareInt (major pv) (major pw)
          else if compareInt (minor pv) (minor pw) \<noteq> 0 then compareInt (minor pv) (minor pw)
          else if compareInt (patch pv) (patch pw) \<noteq> 0 then compareInt (patch pv) (patch pw)
          else comparePrerelease (prerelease pv) (prerelease pw))"

section \<open>The order of \<^verbatim>\<open>semver.Compare\<close>\<close>

text \<open>
  \<^verbatim>\<open>semver.Compare\<close> compares keys: of a number its length and its digits, of an identifier
  of a pre-release whether it is numeric, then its length if it is, then its bytes, of a
  pre-release the list of the keys of its identifiers, the empty pre-release being the
  greatest, and of a version the keys of the three numbers and of the pre-release, an
  invalid version being the least. The keys serve the proofs only.
\<close>

definition int_key :: "string \<Rightarrow> nat \<times> string" where
  "int_key x = (length x, x)"

definition ident_key :: "string \<Rightarrow> bool \<times> nat \<times> string" where
  "ident_key d = (\<not> isNum d, if isNum d then length d else 0, d)"

function idents :: "string \<Rightarrow> string list" where
  \<comment> \<open>the identifiers that the loop of \<^verbatim>\<open>comparePrerelease\<close> takes from a string\<close>
  "idents x = (if x = [] then [] else let (d, x') = nextIdent (tl x) in d # idents x')"
  by pat_completeness auto
termination
  by (relation "measure length")
     (auto simp: nextIdent_def neq_Nil_conv less_Suc_eq_le length_dropWhile_le)

declare idents.simps [simp del]

definition prerelease_key :: "string \<Rightarrow> bool \<times> (bool \<times> nat \<times> string) list" where
  "prerelease_key x = (x = [], map ident_key (idents x))"

type_synonym version_key =
  "((nat \<times> string) \<times> (nat \<times> string) \<times> (nat \<times> string)
     \<times> bool \<times> (bool \<times> nat \<times> string) list) option"

definition version_key :: "string \<Rightarrow> version_key" where
  "version_key v =
     map_option (\<lambda>p. (int_key (major p), int_key (minor p), int_key (patch p),
                        prerelease_key (prerelease p))) (parse v)"

definition three_way :: "'k::linorder \<Rightarrow> 'k \<Rightarrow> int" where
  "three_way a b = (if a < b then -1 else if a = b then 0 else 1)"

section \<open>Version normalisation and package names\<close>

definition ModPathBase :: string where
  "ModPathBase = ''gohugo.io/npmjs''"

definition normalizeSemver :: "string \<Rightarrow> string" where
  \<comment> \<open>Make the version Go semver compatible.\<close>
  "normalizeSemver s = (if \<not> HasPrefix s ''v'' then ''v'' @ s else s)"

definition EscapePackage :: "string \<Rightarrow> string" where
  "EscapePackage p = ReplaceAll p ''@'' ''___''"

definition UnEscapePackage :: "string \<Rightarrow> string" where
  "UnEscapePackage p = ReplaceAll p ''___'' ''@''"

section \<open>Errors\<close>

text \<open>
  A Go \<^verbatim>\<open>error\<close> is a value; the constructors below are the errors the program makes
  or passes on. \<open>EOF\<close> is \<^verbatim>\<open>io.EOF\<close>; the argument of the errors of the libraries is
  their message.
\<close>

datatype error =
    EOF
  | JsonError string
  | RequestError string
  | TransportError string
  | VersionNotFound string string
  | OsError string
  | BadStatus nat
  | CopyError string
  | ShasumMismatch
  | DownloadFailed error
  | GzipError string
  | TarError string
  | UntarFailed error
  | ZipError string

section \<open>Sorting: \<^verbatim>\<open>sort.Slice\<close>\<close>

text \<open>
  \<^verbatim>\<open>sort.Slice(x, less)\<close> sorts in place and is not stable. On a slice of at most six
  elements every release of Go runs exactly the insertion sort below
  (\<^verbatim>\<open>for i := a + 1; i < b; i++ { for j := i; j > a && less(j, j-1); j-- { swap(j, j-1) } }\<close>);
  on longer slices it runs other algorithms, whose result for a \<^verbatim>\<open>less\<close> that is a strict
  weak order is again a permutation in which no element is less than an earlier one.
  The sorted part \<^verbatim>\<open>data[a:i]\<close> is kept in reverse, so that the neighbour \<^verbatim>\<open>data[j-1]\<close> of
  the element being moved is the head of the list.
\<close>

fun insertion_step :: "('a \<Rightarrow> 'a \<Rightarrow> bool) \<Rightarrow> 'a \<Rightarrow> 'a list \<Rightarrow> 'a list" where
  \<comment> \<open>the inner loop: \<open>x\<close> moves towards the front while it is less than its neighbour\<close>
  "insertion_step lt x [] = [x]"
| "insertion_step lt x (y # ys) =
     (if lt x y then y # insertion_step lt x ys else x # y # ys)"

definition sort_Slice :: "('a \<Rightarrow> 'a \<Rightarrow> bool) \<Rightarrow> 'a list \<Rightarrow> 'a list" where
  "sort_Slice lt xs = rev (foldl (\<lambda>sorted_part x. insertion_step lt x sorted_part) [] xs)"

section \<open>The registry document\<close>

record Dependency =
  Dependency_Name :: string
  Dependency_VersionRange :: string

type_synonym Dependencies = "Dependency list"

record Dist =
  ShaSum :: string
  Tarball :: string

record DistTags =
  Latest :: string

record Version =
  Version_Name :: string
  Version_Version :: string
  Version_Dependencies :: Dependencies
  Version_Dist :: Dist

type_synonym Versions = "Version list"

record NpmPackage =
  NpmPackage_Name :: string
  NpmPackage_DistTags :: DistTags
  NpmPackage_Versions :: Versions

text \<open>
  The zero values of the structs: what a field holds when the document has no member
  for it.
\<close>

definition zero_Dist :: Dist where
  "zero_Dist = \<lparr>ShaSum = [], Tarball = []\<rparr>"

definition zero_Version :: Version where
  "zero_Version = \<lparr>Version_Name = [], Version_Version = [], Version_Dependencies = [],
                    Version_Dist = zero_Dist\<rparr>"

definition zero_NpmPackage :: NpmPackage where
  "zero_NpmPackage = \<lparr>NpmPackage_Name = [], NpmPackage_DistTags = \<lparr>Latest = []\<rparr>,
                       NpmPackage_Versions = []\<rparr>"

text \<open>
  \<^verbatim>\<open>json.Unmarshal(b, &m)\<close> into a Go map either fails or yields a map. The map is given by
  its entries in the order in which the following \<^verbatim>\<open>range\<close> loop visits them: the keys
  of the list are pairwise distinct, and its order is arbitrary and may change from one
  run to the next.
\<close>

type_synonym 'v go_map = "(string \<times> 'v) list"

definition Dependencies_less :: "Dependency \<Rightarrow> Dependency \<Rightarrow> bool" where
  \<comment> \<open>\<^verbatim>\<open>return vi.Name < vj.Name\<close>\<close>
  "Dependencies_less vi vj = (Dependency_Name vi < Dependency_Name vj)"

definition Dependencies_UnmarshalJSON ::
    "Dependencies \<Rightarrow> error + string go_map \<Rightarrow> error + Dependencies" where
  \<comment> \<open>The first argument is the receiver \<^verbatim>\<open>*vs\<close> before the call, the second the result of
      \<^verbatim>\<open>json.Unmarshal(b, &m)\<close>; the result is \<^verbatim>\<open>*vs\<close> after the call, or the error.\<close>
  "Dependencies_UnmarshalJSON vs r =
     (case r of
        Inl err \<Rightarrow> Inl err
      | Inr m \<Rightarrow>
          Inr (sort_Slice Dependencies_less
                 (vs @ map (\<lambda>(k, v). \<lparr>Dependency_Name = k, Dependency_VersionRange = v\<rparr>) m)))"

definition map_index :: "'v \<Rightarrow> 'v go_map \<Rightarrow> string \<Rightarrow> 'v" where
  \<comment> \<open>\<^verbatim>\<open>m[k]\<close>: the value stored under \<open>k\<close>, or the zero value\<close>
  "map_index zero m k = (case map_of m k of None \<Rightarrow> zero | Some v \<Rightarrow> v)"

definition DistTags_UnmarshalJSON :: "DistTags \<Rightarrow> error + string go_map \<Rightarrow> error + DistTags" where
  "DistTags_UnmarshalJSON tags r =
     (case r of
        Inl err \<Rightarrow> Inl err
      | Inr m \<Rightarrow> Inr (tags\<lparr>Latest := normalizeSemver (map_index [] m ''latest'')\<rparr>))"

definition Versions_less :: "Version \<Rightarrow> Version \<Rightarrow> bool" where
  "Versions_less vi vj =
     (let cmp = Compare (Version_Version vi) (Version_Version vj) in
      if cmp \<noteq> 0 then cmp < 0
      else Version_Version vi < Version_Version vj)"

definition Versions_UnmarshalJSON :: "Versions \<Rightarrow> error + Version go_map \<Rightarrow> error + Versions" where
  \<comment> \<open>as for the dependencies: receiver before the call, result of
      \<^verbatim>\<open>json.Unmarshal(b, &m)\<close>, receiver after the call\<close>
  "Versions_UnmarshalJSON vs r =
     (case r of
        Inl err \<Rightarrow> Inl err
      | Inr m \<Rightarrow>
          Inr (sort_Slice Versions_less
                 (vs @ map (\<lambda>(k, version).
                              version\<lparr>Version_Version := normalizeSemver (Version_Version version)\<rparr>) m)))"

fun ByVersion_loop :: "Version \<Rightarrow> Versions \<Rightarrow> string \<Rightarrow> Version \<times> bool" where
  \<comment> \<open>the loop assigns each element to the named result \<open>ver\<close>, which is what the final
      bare \<^verbatim>\<open>return\<close> hands back together with \<^verbatim>\<open>found == false\<close>\<close>
  "ByVersion_loop ver [] v = (ver, False)"
| "ByVersion_loop ver (x # xs) v =
     (if Version_Version x = v then (x, True) else ByVersion_loop x xs v)"

definition ByVersion :: "Versions \<Rightarrow> string \<Rightarrow> Version \<times> bool" where
  "ByVersion vs v = ByVersion_loop zero_Version vs v"

section \<open>The registry client\<close>

text \<open>
  The body of a registry response, as \<^verbatim>\<open>json.NewDecoder(r.Body).Decode(&npmp)\<close> sees it:
  empty (the decoder returns \<^verbatim>\<open>io.EOF\<close>), something it rejects (a syntax error, a member
  of the wrong type), or a JSON object. Of an object only the members that the structs
  name are kept, each member name occurring at most once; an absent member leaves the
  zero value in its field. The maps are in the order of their \<^verbatim>\<open>range\<close> loops.
\<close>

record json_version =
  json_name :: string
  json_version :: string
  json_dependencies :: "string go_map option"
  json_dist :: Dist

record json_package =
  json_package_name :: string
  json_dist_tags :: "string go_map option"
  json_versions :: "json_version go_map option"

datatype body = EmptyBody | Malformed string | Object json_package

definition decode_Version :: "json_version \<Rightarrow> error + Version" where
  \<comment> \<open>the decoder filling a \<^verbatim>\<open>Version\<close>: the member \<^verbatim>\<open>dependencies\<close> goes through
      \<^verbatim>\<open>Dependencies.UnmarshalJSON\<close>\<close>
  "decode_Version j =
     (case (case json_dependencies j of
              None \<Rightarrow> Inr []
            | Some m \<Rightarrow> Dependencies_UnmarshalJSON [] (Inr m)) of
        Inl err \<Rightarrow> Inl err
      | Inr deps \<Rightarrow>
          Inr \<lparr>Version_Name = json_name j, Version_Version = json_version j,
               Version_Dependencies = deps, Version_Dist = json_dist j\<rparr>)"

fun decode_Version_map :: "json_version go_map \<Rightarrow> error + Version go_map" where
  \<comment> \<open>\<^verbatim>\<open>json.Unmarshal(b, &m)\<close> for \<^verbatim>\<open>m map[string]Version\<close>\<close>
  "decode_Version_map [] = Inr []"
| "decode_Version_map ((k, j) # js) =
     (case decode_Version j of
        Inl err \<Rightarrow> Inl err
      | Inr v \<Rightarrow>
          (case decode_Version_map js of
             Inl err \<Rightarrow> Inl err
           | Inr vs \<Rightarrow> Inr ((k, v) # vs)))"

definition Decode :: "body \<Rightarrow> NpmPackage \<times> error option" where
  \<comment> \<open>\<^verbatim>\<open>json.NewDecoder(r.Body).Decode(&npmp)\<close> for a zero \<open>npmp\<close>: the package as far as it
      was filled, and the error\<close>
  "Decode b =
     (case b of
        EmptyBody \<Rightarrow> (zero_NpmPackage, Some EOF)
      | Malformed msg \<Rightarrow> (zero_NpmPackage, Some (JsonError msg))
      | Object j \<Rightarrow>
          (case (case json_dist_tags j of
                   None \<Rightarrow> Inr \<lparr>Latest = []\<rparr>
                 | Some m \<Rightarrow> DistTags_UnmarshalJSON \<lparr>Latest = []\<rparr> (Inr m)) of
             Inl err \<Rightarrow> (zero_NpmPackage\<lparr>NpmPackage_Name := json_package_name j\<rparr>, Some err)
           | Inr tags \<Rightarrow>
               (case (case json_versions j of
                        None \<Rightarrow> Inr []
                      | Some m \<Rightarrow> Versions_UnmarshalJSON [] (decode_Version_map m)) of
                  Inl err \<Rightarrow>
                    (\<lparr>NpmPackage_Name = json_package_name j, NpmPackage_DistTags = tags,
                      NpmPackage_Versions = []\<rparr>, Some err)
                | Inr vs \<Rightarrow>
                    (\<lparr>NpmPackage_Name = json_package_name j, NpmPackage_DistTags = tags,
                      NpmPackage_Versions = vs\<rparr>, None))))"

text \<open>
  What the network does with a request is an input of the model: for a URL,
  \<^verbatim>\<open>http.NewRequest\<close> fails, or the round trip fails (no connection, the ten-second
  timeout), or a response arrives with a status code and a body.
\<close>

datatype 'b http_outcome =
    NewRequestFails string
  | DoFails string
  | Responds nat 'b

definition FetchPackage :: "(string \<Rightarrow> body http_outcome) \<Rightarrow> string \<Rightarrow> error + NpmPackage" where
  \<comment> \<open>The status code of the response is not looked at.\<close>
  "FetchPackage registry s =
     (case registry (''https://registry.npmjs.org/'' @ s) of
        NewRequestFails msg \<Rightarrow> Inl (RequestError msg)
      | DoFails msg \<Rightarrow> Inl (TransportError msg)
      | Responds status b \<Rightarrow>
          (let (npmp, err) = Decode b;
               err = (if err = Some EOF then None else err)
           in case err of None \<Rightarrow> Inr npmp | Some e \<Rightarrow> Inl e))"

definition FetchPackageVersion ::
    "(string \<Rightarrow> body http_outcome) \<Rightarrow> string \<Rightarrow> string \<Rightarrow> error + Version" where
  "FetchPackageVersion registry pack version =
     (case FetchPackage registry pack of
        Inl err \<Rightarrow> Inl err
      | Inr npmpkg \<Rightarrow>
          (let (npmv, found) = ByVersion (NpmPackage_Versions npmpkg) version in
           if \<not> found then Inl (VersionNotFound version pack)
           else Inr npmv))"

section \<open>Registry replies used as examples\<close>

definition alpinejs_3_3_3 :: json_version where
  \<comment> \<open>the entry the tests of the repository read\<close>
  "alpinejs_3_3_3 =
     \<lparr>json_name = ''alpinejs'', json_version = ''3.3.3'',
      json_dependencies = Some [(''@vue/reactivity'', ''^3.0.2'')],
      json_dist = \<lparr>ShaSum = ''966c94b6847f3d6840c5750e0b14caec82214e56'',
                   Tarball = ''https://registry.npmjs.org/alpinejs/-/alpinejs-3.3.3.tgz''\<rparr>\<rparr>"

definition registry_alpinejs :: "string \<Rightarrow> body http_outcome" where
  \<comment> \<open>a registry that knows the package, with one version\<close>
  "registry_alpinejs url =
     Responds 200 (Object \<lparr>json_package_name = ''alpinejs'',
                            json_dist_tags = Some [(''latest'', ''3.3.3'')],
                            json_versions = Some [(''3.3.3'', alpinejs_3_3_3)]\<rparr>)"

definition registry_no_package :: "string \<Rightarrow> body http_outcome" where
  \<comment> \<open>a registry that does not know the package: status 404 and the document
      \<^verbatim>\<open>{"error":"Not found"}\<close>, which has none of the members of the struct\<close>
  "registry_no_package url =
     Responds 404 (Object \<lparr>json_package_name = [], json_dist_tags = None,
                            json_versions = None\<rparr>)"

definition registry_empty_body :: "string \<Rightarrow> body http_outcome" where
  "registry_empty_body url = Responds 200 EmptyBody"

definition registry_unreachable :: "string \<Rightarrow> body http_outcome" where
  "registry_unreachable url = DoFails ''dial tcp: no such host''"

definition example_version :: "string \<Rightarrow> string \<Rightarrow> json_version" where
  \<comment> \<open>a version of the package \<open>p\<close> with the given version string and checksum\<close>
  "example_version v sha =
     \<lparr>json_name = ''p'', json_version = v, json_dependencies = None,
      json_dist = \<lparr>ShaSum = sha, Tarball = ''https://registry.npmjs.org/p/-/p.tgz''\<rparr>\<rparr>"

definition registry_of :: "json_version go_map \<Rightarrow> string \<Rightarrow> body http_outcome" where
  \<comment> \<open>a registry whose document for every package has the given map of versions\<close>
  "registry_of m url =
     Responds 200 (Object \<lparr>json_package_name = ''p'', json_dist_tags = None,
                            json_versions = Some m\<rparr>)"

section \<open>Regular expressions: package \<^verbatim>\<open>regexp\<close>\<close>









section \<open>The router\<close>






record moduleContext =
  NpmPackage :: string
  Version :: string
  PathMajorVersion :: string

datatype handler = List | Info | Mod | Zip

text \<open>
  What \<^verbatim>\<open>ServeHTTP\<close> does with a request: it answers by itself (method not allowed, not
  found, an internal server error with the text of the failure), or it calls one of the
  four handlers with the module context.
\<close>

datatype served =
    StatusMethodNotAllowed
  | StatusNotFound
  | StatusInternalServerError string
  | Call handler moduleContext




section \<open>Slash-separated paths: package \<^verbatim>\<open>path\<close>\<close>

function backtrack :: "string \<Rightarrow> nat \<Rightarrow> nat \<Rightarrow> nat" where
  \<comment> \<open>\<^verbatim>\<open>for out.w > dotdot && out.index(out.w) != '/' { out.w-- }\<close>, from \<open>w\<close>\<close>
  "backtrack out w dotdot =
     (if w > dotdot \<and> out ! w \<noteq> CHR ''/'' then backtrack out (w - 1) dotdot else w)"
  by pat_completeness auto
termination
  by (relation "measure (\<lambda>(out, w, dotdot). w)") auto

declare backtrack.simps [simp del]

lemma length_dropWhile_less:
  "p \<noteq> [] \<Longrightarrow> P (hd p) \<Longrightarrow> length (dropWhile P p) < length p"
  by (cases p) (simp_all add: less_Suc_eq_le length_dropWhile_le)

function Clean_loop :: "bool \<Rightarrow> string \<Rightarrow> string \<Rightarrow> nat \<Rightarrow> string" where
  \<comment> \<open>The loop \<^verbatim>\<open>for r < n\<close> of \<^verbatim>\<open>path.Clean\<close>: \<open>p\<close> is \<^verbatim>\<open>path[r:]\<close>, \<open>out\<close> the bytes written so
      far (\<^verbatim>\<open>out.w\<close> is its length), \<open>dotdot\<close> the index where \<^verbatim>\<open>..\<close> must stop.\<close>
  "Clean_loop rooted p out dotdot =
     (if p = [] then out
      else if hd p = CHR ''/'' then Clean_loop rooted (tl p) out dotdot
      else if hd p = CHR ''.'' \<and> (tl p = [] \<or> hd (tl p) = CHR ''/'') then
        Clean_loop rooted (tl p) out dotdot
      else if hd p = CHR ''.'' \<and> hd (tl p) = CHR ''.''
              \<and> (drop 2 p = [] \<or> hd (drop 2 p) = CHR ''/'') then
        (if length out > dotdot then
           Clean_loop rooted (drop 2 p) (take (backtrack out (length out - 1) dotdot) out) dotdot
         else if \<not> rooted then
           (let out = (if length out > 0 then out @ ''/'' else out) @ ''..''
            in Clean_loop rooted (drop 2 p) out (length out))
         else Clean_loop rooted (drop 2 p) out dotdot)
      else
        (let out = (if rooted \<and> length out \<noteq> 1 \<or> \<not> rooted \<and> length out \<noteq> 0
                    then out @ ''/'' else out)
         in Clean_loop rooted (dropWhile (\<lambda>c. c \<noteq> CHR ''/'') p)
              (out @ takeWhile (\<lambda>c. c \<noteq> CHR ''/'') p) dotdot))"
  by pat_completeness auto
termination
  by (relation "measure (\<lambda>(rooted, p, out, dotdot). length p)")
     (auto simp: neq_Nil_conv intro!: length_dropWhile_less)

declare Clean_loop.simps [simp del]

definition Clean :: "string \<Rightarrow> string" where
  \<comment> \<open>\<^verbatim>\<open>path.Clean(path)\<close>\<close>
  "Clean path =
     (if path = [] then ''.''
      else
        (let rooted = (hd path = CHR ''/'');
             out = (if rooted then Clean_loop rooted (tl path) ''/'' 1
                    else Clean_loop rooted path [] 0)
         in if length out = 0 then ''.'' else out))"

definition path_Join :: "string list \<Rightarrow> string" where
  \<comment> \<open>\<^verbatim>\<open>path.Join(elem...)\<close>: the elements from the first non-empty one on, joined by
      slashes and cleaned; the empty string when all are empty\<close>
  "path_Join elem =
     (case dropWhile (\<lambda>e. e = []) elem of
        [] \<Rightarrow> []
      | es \<Rightarrow> Clean (Join es ''/''))"

section \<open>The identity of the module in the archive\<close>

record module_Version =
  module_Path :: string
  module_Version :: string

definition zip_module :: "Version \<Rightarrow> module_Version" where
  \<comment> \<open>the \<^verbatim>\<open>module.Version\<close> that \<^verbatim>\<open>repackTarballAsZip\<close> hands to \<^verbatim>\<open>zip.CreateFromDir\<close>\<close>
  "zip_module version =
     (let major = Major (Version_Version version);
          major = (if major = ''v1'' then [] else major)
      in \<lparr>module_Path = path_Join [ModPathBase, EscapePackage (Version_Name version), major],
          module_Version = Version_Version version\<rparr>)"

definition plain_element :: "string \<Rightarrow> bool" where
  \<comment> \<open>an element that \<^verbatim>\<open>path.Clean\<close> keeps as it is: not empty, without slash, and neither
      \<^verbatim>\<open>.\<close> nor \<^verbatim>\<open>..\<close>\<close>
  "plain_element e = (e \<noteq> [] \<and> CHR ''/'' \<notin> set e \<and> e \<noteq> ''.'' \<and> e \<noteq> ''..'')"

section \<open>Files\<close>

text \<open>
  The file system as far as the program observes it: the directories that exist and the
  regular files with their contents, both under their cleaned paths. The operations of
  package \<^verbatim>\<open>os\<close> fail here for the reasons that lie in this state (a missing parent, a
  file where a directory is needed); failures for other reasons, such as permissions or
  a full disk, are left out.
\<close>

record filesystem =
  dirs :: "string set"
  files :: "string \<rightharpoonup> string"

definition filepath_Dir :: "string \<Rightarrow> string" where
  \<comment> \<open>\<^verbatim>\<open>filepath.Dir(path)\<close> on Unix: the path up to and including its last slash, cleaned\<close>
  "filepath_Dir p = Clean (rev (dropWhile (\<lambda>c. c \<noteq> CHR ''/'') (rev p)))"

definition filepath_Join :: "string list \<Rightarrow> string" where
  \<comment> \<open>\<^verbatim>\<open>filepath.Join(elem...)\<close>, which on Unix is \<^verbatim>\<open>path.Join\<close>\<close>
  "filepath_Join elem = path_Join elem"

definition ancestors :: "string \<Rightarrow> string list" where
  \<comment> \<open>the directories above a cleaned path, the root apart: \<open>/tmp\<close> and \<open>/tmp/a\<close> for
      \<open>/tmp/a/b\<close>\<close>
  "ancestors p = [take i p. i \<leftarrow> [1..<length p], p ! i = CHR ''/'']"

definition os_Stat :: "filesystem \<Rightarrow> string \<Rightarrow> bool" where
  \<comment> \<open>whether \<^verbatim>\<open>os.Stat(name)\<close> returns without error\<close>
  "os_Stat fs name = (name \<in> dirs fs \<or> files fs name \<noteq> None)"

definition os_MkdirAll :: "filesystem \<Rightarrow> string \<Rightarrow> error + filesystem" where
  \<comment> \<open>\<^verbatim>\<open>os.MkdirAll(path, perm)\<close>: the directory and the missing ones above it are made;
      it fails where a regular file is in the way\<close>
  "os_MkdirAll fs p =
     (if list_ex (\<lambda>q. files fs q \<noteq> None) (ancestors p @ [p])
      then Inl (OsError ''mkdir: not a directory'')
      else Inr (fs\<lparr>dirs := dirs fs \<union> set (ancestors p @ [p])\<rparr>))"

definition os_Create :: "filesystem \<Rightarrow> string \<Rightarrow> error + filesystem" where
  \<comment> \<open>\<^verbatim>\<open>os.Create(name)\<close>: the file is created, or truncated if it exists\<close>
  "os_Create fs name =
     (if name \<in> dirs fs then Inl (OsError ''open: is a directory'')
      else if filepath_Dir name \<notin> dirs fs then Inl (OsError ''open: no such file or directory'')
      else Inr (fs\<lparr>files := (files fs)(name \<mapsto> [])\<rparr>))"

definition os_Open :: "filesystem \<Rightarrow> string \<Rightarrow> error + string" where
  \<comment> \<open>\<^verbatim>\<open>os.Open(name)\<close> of a regular file, read to its end\<close>
  "os_Open fs name =
     (case files fs name of
        None \<Rightarrow> Inl (OsError ''open: no such file or directory'')
      | Some bytes \<Rightarrow> Inr bytes)"

definition write_file :: "filesystem \<Rightarrow> string \<Rightarrow> string \<Rightarrow> filesystem" where
  \<comment> \<open>bytes appended to an open file\<close>
  "write_file fs name bytes =
     fs\<lparr>files := (files fs)(name \<mapsto> (case files fs name of None \<Rightarrow> [] | Some old \<Rightarrow> old) @ bytes)\<rparr>"

definition within :: "string \<Rightarrow> string \<Rightarrow> bool" where
  \<comment> \<open>\<open>q\<close> is the path \<open>p\<close> or lies below it\<close>
  "within p q = (q = p \<or> HasPrefix q (p @ ''/''))"

definition os_RemoveAll :: "filesystem \<Rightarrow> string \<Rightarrow> filesystem" where
  \<comment> \<open>\<^verbatim>\<open>os.RemoveAll(path)\<close>: the path and everything below it\<close>
  "os_RemoveAll fs p =
     fs\<lparr>dirs := {d \<in> dirs fs. \<not> within p d},
        files := (\<lambda>q. if within p q then None else files fs q)\<rparr>"

section \<open>The tarball\<close>

text \<open>
  The response to the request for the tarball carries the bytes that arrive before the
  stream ends, and the error with which it breaks off, if it does.
\<close>

record download =
  received :: string
  read_error :: "string option"

text \<open>
  What lies outside the program is gathered in one record: the registry and the host of
  the tarballs, the directory that \<^verbatim>\<open>ioutil.TempDir("", "npmgop")\<close> makes or the message of
  its error, the SHA-1 digest in hexadecimal (\<^verbatim>\<open>hex.EncodeToString(h.Sum(nil))\<close>), the
  reading of a gzipped tar stream, and the archive builder \<^verbatim>\<open>zip.CreateFromDir\<close>.
\<close>

datatype typeflag = TypeDir | TypeReg | TypeOther

datatype tar_step =
    Next string typeflag string "string option"
  | NextNil
  | NextFails string

text \<open>
  A step of the tar reader is \<^verbatim>\<open>tr.Next()\<close> returning a header, with the name, the type
  and the content of the entry and the error that ends the copy of the content, if one
  does; or returning no header and no error; or failing. After the last step
  \<^verbatim>\<open>tr.Next()\<close> returns \<^verbatim>\<open>io.EOF\<close>.
\<close>

record world =
  npm_registry :: "string \<Rightarrow> body http_outcome"
  tarball_host :: "string \<Rightarrow> download http_outcome"
  TempDir :: "string + string"
  sha1_hex :: "string \<Rightarrow> string"
  read_tgz :: "string \<Rightarrow> string + tar_step list"
  CreateFromDir :: "module_Version \<Rightarrow> filesystem \<Rightarrow> string \<Rightarrow> string + string"

definition downloadTarball :: "world \<Rightarrow> filesystem \<Rightarrow> Dist \<Rightarrow> string \<Rightarrow> filesystem \<times> error option" where
  \<comment> \<open>The file system after the call, and the error. Nothing removes the file that
      \<^verbatim>\<open>os.Create\<close> made.\<close>
  "downloadTarball w fs dist target =
     (case os_Create fs target of
        Inl err \<Rightarrow> (fs, Some err)
      | Inr fs \<Rightarrow>
          (case tarball_host w (Tarball dist) of
             NewRequestFails msg \<Rightarrow> (fs, Some (TransportError msg))
           | DoFails msg \<Rightarrow> (fs, Some (TransportError msg))
           | Responds status resp \<Rightarrow>
               if status \<noteq> 200 then (fs, Some (BadStatus status))
               else
                 (let fs = write_file fs target (received resp) in
                  case read_error resp of
                    Some msg \<Rightarrow> (fs, Some (CopyError msg))
                  | None \<Rightarrow>
                      (let shasumFile = sha1_hex w (received resp) in
                       if shasumFile \<noteq> ShaSum dist then (fs, Some ShasumMismatch)
                       else (fs, None)))))"

fun untar_loop :: "filesystem \<Rightarrow> string \<Rightarrow> tar_step list \<Rightarrow> filesystem \<times> error option" where
  "untar_loop fs dst [] = (fs, None)"
| "untar_loop fs dst (NextFails msg # steps) = (fs, Some (TarError msg))"
| "untar_loop fs dst (NextNil # steps) = untar_loop fs dst steps"
| "untar_loop fs dst (Next name flag content copy_error # steps) =
     (let target = filepath_Join [dst, name] in
      case flag of
        TypeDir \<Rightarrow>
          if \<not> os_Stat fs target then
            (case os_MkdirAll fs target of
               Inl err \<Rightarrow> (fs, Some err)
             | Inr fs \<Rightarrow> untar_loop fs dst steps)
          else untar_loop fs dst steps
      | TypeReg \<Rightarrow>
          (case os_MkdirAll fs (filepath_Dir target) of
             Inl err \<Rightarrow> (fs, Some err)
           | Inr fs \<Rightarrow>
               (case os_Create fs target of
                  Inl err \<Rightarrow> (fs, Some err)
                | Inr fs \<Rightarrow>
                    (let fs = write_file fs target content in
                     case copy_error of
                       Some msg \<Rightarrow> (fs, Some (CopyError msg))
                     | None \<Rightarrow> untar_loop fs dst steps)))
      | TypeOther \<Rightarrow> untar_loop fs dst steps)"

definition untar :: "world \<Rightarrow> filesystem \<Rightarrow> string \<Rightarrow> string \<Rightarrow> filesystem \<times> error option" where
  \<comment> \<open>\<open>r\<close> is the content of the reader\<close>
  "untar w fs dst r =
     (case read_tgz w r of
        Inl msg \<Rightarrow> (fs, Some (GzipError msg))
      | Inr steps \<Rightarrow> untar_loop fs dst steps)"

definition repackTarballAsZip ::
    "world \<Rightarrow> filesystem \<Rightarrow> string \<Rightarrow> Version \<Rightarrow> filesystem \<times> (error + string)" where
  \<comment> \<open>The result is the name of the file of the archive, or the error. When the archive
      builder fails, Go returns the open file together with the error; the caller looks at
      the error only.\<close>
  "repackTarballAsZip w fs tarFilename version =
     (let tarDir = filepath_Join [filepath_Dir tarFilename,
                     Version_Name version @ ''-'' @ Version_Version version @ ''-''
                       @ ShaSum (Version_Dist version)]
      in case os_MkdirAll fs tarDir of
        Inl err \<Rightarrow> (fs, Inl err)
      | Inr fs \<Rightarrow>
          (case os_Open fs tarFilename of
             Inl err \<Rightarrow> (fs, Inl err)
           | Inr tf \<Rightarrow>
               (case untar w fs tarDir tf of
                  (fs, Some err) \<Rightarrow> (fs, Inl (UntarFailed err))
                | (fs, None) \<Rightarrow>
                    (let zipFilename = tarFilename @ ''.zip'' in
                     case os_Create fs zipFilename of
                       Inl err \<Rightarrow> (fs, Inl err)
                     | Inr fs \<Rightarrow>
                         (case CreateFromDir w (zip_module version) fs tarDir of
                            Inl msg \<Rightarrow> (fs, Inl (ZipError msg))
                          | Inr bytes \<Rightarrow> (write_file fs zipFilename bytes, Inr zipFilename))))))"

definition CreateZipFromVersion :: "world \<Rightarrow> filesystem \<Rightarrow> Version \<Rightarrow> filesystem \<times> (error + string)" where
  \<comment> \<open>No path of this function removes \<open>tempDir\<close>.\<close>
  "CreateZipFromVersion w fs last_version =
     (case TempDir w of
        Inl msg \<Rightarrow> (fs, Inl (OsError msg))
      | Inr tempDir \<Rightarrow>
          (let fs = fs\<lparr>dirs := insert tempDir (dirs fs)\<rparr>;
               tarFilename = filepath_Join [tempDir, ReplaceAll (Version_Name last_version) ''/'' ''_'']
           in case downloadTarball w fs (Version_Dist last_version) tarFilename of
                (fs, Some err) \<Rightarrow> (fs, Inl (DownloadFailed err))
              | (fs, None) \<Rightarrow> repackTarballAsZip w fs tarFilename last_version))"

section \<open>The handler of the archive\<close>

datatype response =
    InternalServerError string error
  | Content string string

text \<open>
  \<open>InternalServerError what err\<close> is the answer of \<^verbatim>\<open>g.fail(w, what, err)\<close>: status 500 and
  the two texts. \<open>Content name bytes\<close> is the answer of \<^verbatim>\<open>http.ServeContent\<close> for the file of
  that name.
\<close>

definition Zip :: "world \<Rightarrow> filesystem \<Rightarrow> moduleContext \<Rightarrow> filesystem \<times> response" where
  \<comment> \<open>The deferred function, which closes the file and removes its directory, is
      registered after the two early returns: it runs on the last path only.\<close>
  "Zip w fs mctx =
     (case FetchPackageVersion (npm_registry w) (NpmPackage mctx) (Version mctx) of
        Inl err \<Rightarrow> (fs, InternalServerError ''failed to fetch package version'' err)
      | Inr npmv \<Rightarrow>
          (case CreateZipFromVersion w fs npmv of
             (fs, Inl err) \<Rightarrow> (fs, InternalServerError ''failed to create module zip'' err)
           | (fs, Inr name) \<Rightarrow>
               (let served = Content name (case files fs name of None \<Rightarrow> [] | Some bytes \<Rightarrow> bytes)
                in (os_RemoveAll fs (filepath_Dir name), served))))"

section \<open>Worlds used as examples\<close>

definition fs0 :: filesystem where
  \<comment> \<open>a file system with the directory of temporary files and nothing in it\<close>
  "fs0 = \<lparr>dirs = {''/'', ''/tmp''}, files = Map.empty\<rparr>"

definition world_of :: "download http_outcome \<Rightarrow> (string \<Rightarrow> string) \<Rightarrow> world" where
  \<comment> \<open>the registry knows \<open>alpinejs\<close>; the host of the tarballs answers as given; the digest
      is as given; the tarball holds one file, and the builder makes an archive\<close>
  "world_of answer digest =
     \<lparr>npm_registry = registry_alpinejs,
      tarball_host = (\<lambda>url. answer),
      TempDir = Inr ''/tmp/npmgop123'',
      sha1_hex = digest,
      read_tgz = (\<lambda>bytes. Inr [Next ''package/index.js'' TypeReg ''export {}'' None]),
      CreateFromDir = (\<lambda>m fs dir. Inr ''PK'')\<rparr>"

definition alpinejs_request :: moduleContext where
  "alpinejs_request = \<lparr>NpmPackage = ''alpinejs'', Version = ''v3.3.3'', PathMajorVersion = ''/v3''\<rparr>"

definition world_good :: world where
  \<comment> \<open>the tarball arrives and has the declared checksum\<close>
  "world_good =
     world_of (Responds 200 \<lparr>received = ''tarball bytes'', read_error = None\<rparr>)
       (\<lambda>bytes. ''966c94b6847f3d6840c5750e0b14caec82214e56'')"

definition world_tampered :: world where
  \<comment> \<open>the tarball arrives, and its checksum is not the declared one\<close>
  "world_tampered =
     world_of (Responds 200 \<lparr>received = ''other bytes'', read_error = None\<rparr>)
       (\<lambda>bytes. ''da39a3ee5e6b4b0d3255bfef95601890afd80709'')"

definition world_not_found :: world where
  \<comment> \<open>the host of the tarballs answers with status 404\<close>
  "world_not_found =
     world_of (Responds 404 \<lparr>received = ''Not Found'', read_error = None\<rparr>)
       (\<lambda>bytes. ''966c94b6847f3d6840c5750e0b14caec82214e56'')"

definition world_echo :: world where
  \<comment> \<open>as \<open>world_good\<close>, with an archive builder whose archive is the path and the version
      of the module it was handed\<close>
  "world_echo =
     world_good\<lparr>CreateFromDir := (\<lambda>m fs dir. Inr (module_Path m @ '' '' @ module_Version m))\<rparr>"

definition fs_downloaded :: "string \<Rightarrow> filesystem" where
  \<comment> \<open>the staging directory after the download of the tarball to the given file\<close>
  "fs_downloaded tarFilename =
     \<lparr>dirs = {''/'', ''/tmp'', ''/tmp/npmgop123''},
      files = [tarFilename \<mapsto> ''tarball bytes'']\<rparr>"

definition example_Version :: "string \<Rightarrow> string \<Rightarrow> Version" where
  \<comment> \<open>a decoded version of the package of that name\<close>
  "example_Version name v =
     \<lparr>Version_Name = name, Version_Version = v, Version_Dependencies = [],
      Version_Dist = \<lparr>ShaSum = ''966c94b6847f3d6840c5750e0b14caec82214e56'',
                      Tarball = ''https://registry.npmjs.org/p/-/p.tgz''\<rparr>\<rparr>"

section \<open>Properties of normalisation\<close>

text \<open>
  Claim C6. \<^verbatim>\<open>normalizeSemver\<close> is idempotent; it puts the marker \<open>v\<close> in front of a
  string that does not start with it and returns a string that starts with it unchanged.
\<close>

theorem normalizeSemver_idempotent:
  "normalizeSemver (normalizeSemver x) = normalizeSemver x
   \<and> (\<not> HasPrefix x ''v'' \<longrightarrow> normalizeSemver x = ''v'' @ x)
   \<and> (HasPrefix x ''v'' \<longrightarrow> normalizeSemver x = x)"
  by (simp add: normalizeSemver_def HasPrefix_def)

theorem normalizeSemver_idempotent_witness:
  "normalizeSemver (normalizeSemver ''3.3.3'') = normalizeSemver ''3.3.3''
   \<and> \<not> HasPrefix ''3.3.3'' ''v'' \<and> normalizeSemver ''3.3.3'' = ''v3.3.3''
   \<and> HasPrefix ''v3.3.3'' ''v'' \<and> normalizeSemver ''v3.3.3'' = ''v3.3.3''"
  using normalizeSemver_idempotent [of "''3.3.3''"] normalizeSemver_idempotent [of "''v3.3.3''"]
  by (simp add: HasPrefix_def)

section \<open>Escaping package names\<close>

lemma EscapePackage_Nil: "EscapePackage [] = []"
  by (simp add: EscapePackage_def ReplaceAll.simps)

lemma EscapePackage_Cons:
  "EscapePackage (c # cs) =
     (if c = CHR ''@'' then ''___'' @ EscapePackage cs else c # EscapePackage cs)"
  by (simp add: EscapePackage_def ReplaceAll.simps [of "c # cs"] HasPrefix_def)

lemma UnEscapePackage_Nil: "UnEscapePackage [] = []"
  by (simp add: UnEscapePackage_def ReplaceAll.simps)

lemma UnEscapePackage_Cons:
  "UnEscapePackage (c # cs) =
     (if HasPrefix (c # cs) ''___'' then CHR ''@'' # UnEscapePackage (drop 3 (c # cs))
      else c # UnEscapePackage cs)"
  by (simp add: UnEscapePackage_def ReplaceAll.simps [of "c # cs"] numeral_2_eq_2)

lemmas escape_eval =
  EscapePackage_Nil EscapePackage_Cons UnEscapePackage_Nil UnEscapePackage_Cons HasPrefix_def

text \<open>
  An escaped name starts with two underscores only if the name does, or starts with the
  scope marker, alone or after one underscore.
\<close>

lemma EscapePackage_two_underscores:
  assumes "HasPrefix (EscapePackage cs) ''__''"
  shows "HasPrefix cs ''__'' \<or> HasPrefix cs ''@'' \<or> HasPrefix cs ''_@''"
proof (cases cs)
  case Nil
  with assms show ?thesis by (simp add: EscapePackage_Nil HasPrefix_def)
next
  case outer: (Cons d ds)
  show ?thesis
  proof (cases ds)
    case Nil
    with outer assms show ?thesis
      by (auto simp: EscapePackage_Nil EscapePackage_Cons HasPrefix_def split: if_splits)
  next
    case (Cons e es)
    with outer assms show ?thesis
      by (auto simp: EscapePackage_Cons HasPrefix_def split: if_splits)
  qed
qed

lemma Contains_HasPrefix: "HasPrefix s sub \<Longrightarrow> Contains s sub"
  by (cases s) (auto simp: HasPrefix_def)

text \<open>
  Claim C3, as stated: unescaping the escaped form of every name gives the name back.
  It fails for a name that already holds the marker of three underscores, which
  unescaping turns into a scope marker.
\<close>

theorem UnEscapePackage_EscapePackage_counterexample:
  "UnEscapePackage (EscapePackage ''a___b'') \<noteq> ''a___b''"
  by (simp add: escape_eval)

text \<open>
  Claim C3, amended: for every name in which neither three underscores in a row nor an
  underscore directly before a scope marker occur, unescaping the escaped form gives the
  name back; so escaping is injective on these names, whether they hold a scope marker or
  not.
\<close>

theorem UnEscapePackage_EscapePackage:
  "\<not> Contains x ''___'' \<Longrightarrow> \<not> Contains x ''_@'' \<Longrightarrow> UnEscapePackage (EscapePackage x) = x"
proof (induction x)
  case Nil
  show ?case by (simp add: EscapePackage_Nil UnEscapePackage_Nil)
next
  case (Cons c cs)
  from Cons.prems have ih: "UnEscapePackage (EscapePackage cs) = cs"
    by (intro Cons.IH) auto
  show ?case
  proof (cases "c = CHR ''@''")
    case True
    then show ?thesis
      by (simp add: EscapePackage_Cons UnEscapePackage_Cons HasPrefix_def ih)
  next
    case False
    have "\<not> HasPrefix (c # EscapePackage cs) ''___''"
    proof
      assume "HasPrefix (c # EscapePackage cs) ''___''"
      then have c: "c = CHR ''_''" and "HasPrefix (EscapePackage cs) ''__''"
        by (auto simp: HasPrefix_def)
      then consider "HasPrefix cs ''__''" | "HasPrefix cs ''@''" | "HasPrefix cs ''_@''"
        using EscapePackage_two_underscores by blast
      then show False
      proof cases
        case 1
        then have "HasPrefix (c # cs) ''___''" using c by (auto simp: HasPrefix_def)
        with Cons.prems show False by simp
      next
        case 2
        then have "HasPrefix (c # cs) ''_@''" using c by (auto simp: HasPrefix_def)
        with Cons.prems show False by simp
      next
        case 3
        then have "Contains cs ''_@''" by (rule Contains_HasPrefix)
        with Cons.prems show False by simp
      qed
    qed
    with False show ?thesis
      by (simp add: EscapePackage_Cons UnEscapePackage_Cons ih)
  qed
qed

theorem UnEscapePackage_EscapePackage_witness:
  "\<not> Contains ''@vue/reactivity'' ''___'' \<and> \<not> Contains ''@vue/reactivity'' ''_@''
   \<and> EscapePackage ''@vue/reactivity'' = ''___vue/reactivity''
   \<and> UnEscapePackage (EscapePackage ''@vue/reactivity'') = ''@vue/reactivity''"
  using UnEscapePackage_EscapePackage [of "''@vue/reactivity''"]
  by (simp add: escape_eval)

section \<open>The registry client\<close>

lemma ByVersion_loop_find:
  "ByVersion_loop ver vs v =
     (case find (\<lambda>x. Version_Version x = v) vs of
        Some x \<Rightarrow> (x, True)
      | None \<Rightarrow> (if vs = [] then ver else last vs, False))"
  by (induction vs arbitrary: ver) (auto split: option.splits)

lemma decode_Version_map_succeeds: "\<exists>vs. decode_Version_map js = Inr vs"
  by (induction js rule: decode_Version_map.induct)
     (auto simp: decode_Version_def Dependencies_UnmarshalJSON_def split: option.splits)

lemma Decode_error:
  assumes "Decode b = (npmp, Some err)"
  shows "err = EOF \<or> (\<exists>msg. err = JsonError msg)"
proof (cases b)
  case (Object j)
  obtain vs where "decode_Version_map (the (json_versions j)) = Inr vs"
    using decode_Version_map_succeeds by blast
  with Object assms show ?thesis
    by (auto simp: Decode_def DistTags_UnmarshalJSON_def Versions_UnmarshalJSON_def
             split: option.splits sum.splits)
qed (use assms in \<open>auto simp: Decode_def\<close>)

lemma FetchPackage_error:
  assumes "FetchPackage registry s = Inl err"
  shows "(\<exists>msg. err = RequestError msg) \<or> (\<exists>msg. err = TransportError msg)
         \<or> (\<exists>msg. err = JsonError msg)"
proof (cases "registry (''https://registry.npmjs.org/'' @ s)")
  case (NewRequestFails msg)
  with assms show ?thesis by (auto simp: FetchPackage_def)
next
  case (DoFails msg)
  with assms show ?thesis by (auto simp: FetchPackage_def)
next
  case (Responds status b)
  obtain npmp e where d: "Decode b = (npmp, e)" by (cases "Decode b")
  with Responds assms have "e = Some err" "err \<noteq> EOF"
    by (auto simp: FetchPackage_def split: if_splits option.splits)
  with d Decode_error show ?thesis by blast
qed

text \<open>
  Claim C9. When the body of the registry's response is empty, \<^verbatim>\<open>FetchPackage\<close> returns
  without error the zero package: empty name, empty latest tag, no versions.
\<close>

theorem FetchPackage_empty_body:
  "registry (''https://registry.npmjs.org/'' @ s) = Responds status EmptyBody \<Longrightarrow>
   Decode EmptyBody = (zero_NpmPackage, Some EOF)
   \<and> FetchPackage registry s =
       Inr \<lparr>NpmPackage_Name = [], NpmPackage_DistTags = \<lparr>Latest = []\<rparr>, NpmPackage_Versions = []\<rparr>"
  by (simp add: FetchPackage_def Decode_def zero_NpmPackage_def)

theorem FetchPackage_empty_body_witness:
  "registry_empty_body (''https://registry.npmjs.org/'' @ ''alpinejs'') = Responds 200 EmptyBody
   \<and> FetchPackage registry_empty_body ''alpinejs'' =
       Inr \<lparr>NpmPackage_Name = [], NpmPackage_DistTags = \<lparr>Latest = []\<rparr>, NpmPackage_Versions = []\<rparr>"
  using FetchPackage_empty_body [of registry_empty_body "''alpinejs''" 200]
  by (simp add: registry_empty_body_def)

text \<open>
  Claim C5, as stated: the outcome for a version that an existing package does not have
  can be told from the outcome for a package that does not exist. It cannot: the reply
  of the registry for an unknown package decodes to a package without versions, and the
  lookup in it fails with the same error.
\<close>

theorem FetchPackageVersion_counterexample:
  "FetchPackageVersion registry_alpinejs ''alpinejs'' ''v99.0.0''
     = Inl (VersionNotFound ''v99.0.0'' ''alpinejs'')
   \<and> FetchPackageVersion registry_no_package ''alpinejs'' ''v99.0.0''
     = Inl (VersionNotFound ''v99.0.0'' ''alpinejs'')"
  by code_simp

text \<open>
  Claim C5, amended: when the registry's document decodes, \<^verbatim>\<open>FetchPackageVersion\<close>
  returns the first version of the list whose normalised version string equals the
  requested string exactly, and the error \<open>VersionNotFound\<close> when there is none; when
  the fetch fails (request, transport or decoding), that error is returned, and it is
  never \<open>VersionNotFound\<close>. A registry reply for an unknown package that decodes to a
  document without versions gives \<open>VersionNotFound\<close> too.
\<close>

theorem FetchPackageVersion_lookup:
  "(FetchPackage registry pack = Inr npmpkg \<longrightarrow>
      FetchPackageVersion registry pack version =
        (case find (\<lambda>x. Version_Version x = version) (NpmPackage_Versions npmpkg) of
           Some npmv \<Rightarrow> Inr npmv
         | None \<Rightarrow> Inl (VersionNotFound version pack)))
   \<and> (FetchPackage registry pack = Inl err \<longrightarrow>
      FetchPackageVersion registry pack version = Inl err
      \<and> err \<noteq> VersionNotFound version pack)"
proof (intro conjI impI)
  assume "FetchPackage registry pack = Inr npmpkg"
  then show "FetchPackageVersion registry pack version =
        (case find (\<lambda>x. Version_Version x = version) (NpmPackage_Versions npmpkg) of
           Some npmv \<Rightarrow> Inr npmv
         | None \<Rightarrow> Inl (VersionNotFound version pack))"
    by (simp add: FetchPackageVersion_def ByVersion_def ByVersion_loop_find split: option.splits)
next
  assume "FetchPackage registry pack = Inl err"
  then show "FetchPackageVersion registry pack version = Inl err"
    by (simp add: FetchPackageVersion_def)
next
  assume "FetchPackage registry pack = Inl err"
  from FetchPackage_error [OF this] show "err \<noteq> VersionNotFound version pack"
    by auto
qed

theorem FetchPackageVersion_lookup_witness:
  "(\<exists>npmpkg. FetchPackage registry_alpinejs ''alpinejs'' = Inr npmpkg)
   \<and> (\<exists>npmv. FetchPackageVersion registry_alpinejs ''alpinejs'' ''v3.3.3'' = Inr npmv
        \<and> Version_Version npmv = ''v3.3.3'')
   \<and> FetchPackageVersion registry_alpinejs ''alpinejs'' ''3.3.3''
       = Inl (VersionNotFound ''3.3.3'' ''alpinejs'')
   \<and> FetchPackage registry_unreachable ''alpinejs'' = Inl (TransportError ''dial tcp: no such host'')
   \<and> FetchPackageVersion registry_unreachable ''alpinejs'' ''v3.3.3''
       = Inl (TransportError ''dial tcp: no such host'')"
proof -
  have a: "FetchPackage registry_alpinejs ''alpinejs'' =
      Inr \<lparr>NpmPackage_Name = ''alpinejs'', NpmPackage_DistTags = \<lparr>Latest = ''v3.3.3''\<rparr>,
           NpmPackage_Versions =
             [\<lparr>Version_Name = ''alpinejs'', Version_Version = ''v3.3.3'',
               Version_Dependencies =
                 [\<lparr>Dependency_Name = ''@vue/reactivity'', Dependency_VersionRange = ''^3.0.2''\<rparr>],
               Version_Dist = \<lparr>ShaSum = ''966c94b6847f3d6840c5750e0b14caec82214e56'',
                   Tarball = ''https://registry.npmjs.org/alpinejs/-/alpinejs-3.3.3.tgz''\<rparr>\<rparr>]\<rparr>"
    by code_simp
  have b: "FetchPackage registry_unreachable ''alpinejs'' = Inl (TransportError ''dial tcp: no such host'')"
    by code_simp
  from FetchPackageVersion_lookup [of registry_alpinejs "''alpinejs''" _ "''v3.3.3''"]
       FetchPackageVersion_lookup [of registry_alpinejs "''alpinejs''" _ "''3.3.3''"]
       FetchPackageVersion_lookup [of registry_unreachable "''alpinejs''" _ "''v3.3.3''"
          "TransportError ''dial tcp: no such host''"]
       a b
  show ?thesis by simp
qed

section \<open>Sorting\<close>

text \<open>
  The facts about \<^verbatim>\<open>sort.Slice\<close> are proved for a comparison that is the strict order of a
  key: \<open>lt a b\<close> holds exactly when \<open>f a < f b\<close> in a linear order.
\<close>

lemma mset_insertion_step: "mset (insertion_step lt x ys) = add_mset x (mset ys)"
  by (induction ys) auto

lemma set_insertion_step: "set (insertion_step lt x ys) = insert x (set ys)"
  by (induction ys) auto

lemma descending_insertion_step:
  fixes f :: "'a \<Rightarrow> 'k::linorder"
  assumes key: "\<And>a b. lt a b \<longleftrightarrow> f a < f b"
    and desc: "sorted_wrt (\<lambda>a b. f b \<le> f a) ys"
  shows "sorted_wrt (\<lambda>a b. f b \<le> f a) (insertion_step lt x ys)"
  using desc
proof (induction ys)
  case Nil
  show ?case by simp
next
  case (Cons y ys)
  show ?case
  proof (cases "lt x y")
    case True
    with key have "f x \<le> f y" by (simp add: less_imp_le)
    with Cons True show ?thesis by (auto simp: set_insertion_step)
  next
    case False
    with key have "f y \<le> f x" by (simp add: not_less)
    with Cons.prems False show ?thesis by auto
  qed
qed

lemma mset_foldl_insertion_step:
  "mset (foldl (\<lambda>acc x. insertion_step lt x acc) acc xs) = mset acc + mset xs"
  by (induction xs arbitrary: acc) (auto simp: mset_insertion_step)

lemma descending_foldl_insertion_step:
  fixes f :: "'a \<Rightarrow> 'k::linorder"
  assumes key: "\<And>a b. lt a b \<longleftrightarrow> f a < f b"
  shows "sorted_wrt (\<lambda>a b. f b \<le> f a) acc \<Longrightarrow>
         sorted_wrt (\<lambda>a b. f b \<le> f a) (foldl (\<lambda>acc x. insertion_step lt x acc) acc xs)"
proof (induction xs arbitrary: acc)
  case Nil
  then show ?case by simp
next
  case (Cons x xs)
  from descending_insertion_step [of lt f acc x, OF key Cons.prems]
  show ?case by (simp add: Cons.IH)
qed

lemma mset_sort_Slice: "mset (sort_Slice lt xs) = mset xs"
  by (simp add: sort_Slice_def mset_foldl_insertion_step)

lemma set_sort_Slice: "set (sort_Slice lt xs) = set xs"
  using mset_sort_Slice [of lt xs] by (metis set_mset_mset)

lemma sorted_sort_Slice:
  fixes f :: "'a \<Rightarrow> 'k::linorder"
  assumes key: "\<And>a b. lt a b \<longleftrightarrow> f a < f b"
  shows "sorted (map f (sort_Slice lt xs))"
proof -
  have "sorted_wrt (\<lambda>a b. f b \<le> f a) (foldl (\<lambda>acc x. insertion_step lt x acc) [] xs)"
    by (rule descending_foldl_insertion_step [OF key]) simp
  then show ?thesis
    by (simp add: sort_Slice_def sorted_wrt_map sorted_wrt_rev)
qed

text \<open>
  The keys of the result are the sorted keys of the input, whatever the order of the
  input; this holds of every sorted permutation, so of the result of every sorting
  algorithm.
\<close>

lemma sorted_permutation_keys:
  fixes f :: "'a \<Rightarrow> 'k::linorder"
  assumes "mset ys = mset xs" and "sorted (map f ys)"
  shows "map f ys = sort (map f xs)"
proof -
  from assms(1) have "mset (map f ys) = mset (map f xs)" by simp
  from properties_for_sort [OF this assms(2)] show ?thesis by simp
qed

lemma sort_Slice_keys:
  fixes f :: "'a \<Rightarrow> 'k::linorder"
  assumes key: "\<And>a b. lt a b \<longleftrightarrow> f a < f b"
  shows "map f (sort_Slice lt xs) = sort (map f xs)"
  by (rule sorted_permutation_keys [OF mset_sort_Slice sorted_sort_Slice [of lt f, OF key]])

text \<open>
  When the keys of the elements are pairwise distinct, there is one sorted permutation
  only: the result does not depend on the order of the input, nor on the algorithm.
\<close>

lemma sorted_permutation_unique:
  fixes f :: "'a \<Rightarrow> 'k::linorder"
  assumes "mset ys = mset xs" and "sorted (map f ys)"
    and "mset zs = mset xs" and "sorted (map f zs)"
    and inj: "inj_on f (set xs)"
  shows "ys = zs"
proof -
  have "map f ys = map f zs"
    using assms(1-4) by (simp add: sorted_permutation_keys)
  moreover have "set ys = set xs" "set zs = set xs"
    using assms(1,3) by (metis set_mset_mset)+
  ultimately show ?thesis
    using inj by (metis inj_on_map_eq_map sup.idem inj_on_Un)
qed

text \<open>
  What \<^verbatim>\<open>sort.Slice\<close> promises of its result, whatever algorithm it runs: no element is
  less than an earlier one.
\<close>

lemma sorted_by_key:
  fixes f :: "'a \<Rightarrow> 'k::linorder"
  assumes key: "\<And>a b. lt a b \<longleftrightarrow> f a < f b"
  shows "sorted_wrt (\<lambda>a b. \<not> lt b a) ys \<longleftrightarrow> sorted (map f ys)"
  by (simp add: key sorted_wrt_map not_less)

lemma sort_Slice_permutation:
  fixes f :: "'a \<Rightarrow> 'k::linorder"
  assumes key: "\<And>a b. lt a b \<longleftrightarrow> f a < f b"
    and "mset xs' = mset xs" and "inj_on f (set xs)"
  shows "sort_Slice lt xs' = sort_Slice lt xs"
proof (rule sorted_permutation_unique [where f = f and xs = xs])
  show "mset (sort_Slice lt xs') = mset xs" by (simp add: mset_sort_Slice assms(2))
  show "mset (sort_Slice lt xs) = mset xs" by (simp add: mset_sort_Slice)
  show "sorted (map f (sort_Slice lt xs'))" by (rule sorted_sort_Slice [of lt f, OF key])
  show "sorted (map f (sort_Slice lt xs))" by (rule sorted_sort_Slice [of lt f, OF key])
  show "inj_on f (set xs)" by fact
qed

section \<open>\<^verbatim>\<open>semver.Compare\<close> compares keys\<close>

lemma compareInt_key: "compareInt x y = three_way (int_key x) (int_key y)"
  by (auto simp: compareInt_def three_way_def int_key_def)

lemma compareIdent_key:
  "dx \<noteq> dy \<Longrightarrow> compareIdent dx dy = three_way (ident_key dx) (ident_key dy)"
  by (auto simp: compareIdent_def three_way_def ident_key_def Let_def)

lemma inj_ident_key: "ident_key a = ident_key b \<Longrightarrow> a = b"
  by (simp add: ident_key_def)

lemma idents_Nil: "idents [] = []"
  by (simp add: idents.simps)

lemma idents_Cons:
  "idents (c # x) = takeWhile (\<lambda>c. c \<noteq> CHR ''.'') x # idents (dropWhile (\<lambda>c. c \<noteq> CHR ''.'') x)"
  by (simp add: idents.simps [of "c # x"] nextIdent_def)

lemma comparePrerelease_loop_key:
  "comparePrerelease_loop x y =
     (if map ident_key (idents x) < map ident_key (idents y) \<or> idents x = idents y then -1 else 1)"
proof (induction x y rule: comparePrerelease_loop.induct)
  case (1 x y)
  show ?case
  proof (cases "x \<noteq> [] \<and> y \<noteq> []")
    case False
    then show ?thesis
      by (cases x; cases y)
         (simp_all add: comparePrerelease_loop.simps [of "[]"] comparePrerelease_loop.simps [of _ "[]"]
            idents_Nil idents_Cons)
  next
    case True
    then obtain c xs d ys where x: "x = c # xs" and y: "y = d # ys"
      by (auto simp: neq_Nil_conv)
    let ?dx = "takeWhile (\<lambda>c. c \<noteq> CHR ''.'') xs"
    let ?dy = "takeWhile (\<lambda>c. c \<noteq> CHR ''.'') ys"
    let ?x' = "dropWhile (\<lambda>c. c \<noteq> CHR ''.'') xs"
    let ?y' = "dropWhile (\<lambda>c. c \<noteq> CHR ''.'') ys"
    show ?thesis
    proof (cases "?dx = ?dy")
      case False
      then have "ident_key ?dx \<noteq> ident_key ?dy" using inj_ident_key by blast
      with False show ?thesis
        by (simp add: comparePrerelease_loop.simps [of "c # xs" "d # ys"] x y nextIdent_def
              idents_Cons compareIdent_key three_way_def)
    next
      case same: True
      have "comparePrerelease_loop x y = comparePrerelease_loop ?x' ?y'"
        using same
        by (simp add: comparePrerelease_loop.simps [of "c # xs" "d # ys"] x y nextIdent_def)
      also have "\<dots> = (if map ident_key (idents ?x') < map ident_key (idents ?y')
                           \<or> idents ?x' = idents ?y' then -1 else 1)"
        using "1.IH" [of "(?dx, ?x')" ?dx ?x' "(?dy, ?y')" ?dy ?y'] True same
        by (simp add: x y nextIdent_def)
      finally show ?thesis
        using same by (simp add: x y idents_Cons)
    qed
  qed
qed

lemma idents_join: "x \<noteq> [] \<Longrightarrow> tl x = Join (idents x) ''.''"
proof (induction x rule: idents.induct)
  case (1 x)
  then obtain c xs where x: "x = c # xs" by (auto simp: neq_Nil_conv)
  let ?d = "takeWhile (\<lambda>c. c \<noteq> CHR ''.'') xs"
  let ?x' = "dropWhile (\<lambda>c. c \<noteq> CHR ''.'') xs"
  show ?case
  proof (cases ?x')
    case Nil
    then have d: "?d = xs" by (metis takeWhile_dropWhile_id append_Nil2)
    have "idents (c # xs) = [?d]" by (simp only: idents_Cons Nil idents_Nil)
    then show ?thesis by (simp only: x d list.sel Join.simps)
  next
    case (Cons e es)
    then have e: "e = CHR ''.''" using hd_dropWhile [of "\<lambda>c. c \<noteq> CHR ''.''" xs] by auto
    have "tl ?x' = Join (idents ?x') ''.''"
      using "1.IH" [of "(?d, ?x')" ?d ?x'] "1.prems" Cons by (simp add: x nextIdent_def)
    then have es: "es = Join (idents (e # es)) ''.''" using Cons by simp
    obtain d0 ds where i: "idents (e # es) = d0 # ds" by (simp add: idents_Cons)
    have "xs = ?d @ ?x'" by simp
    also have "\<dots> = ?d @ ''.'' @ es" using Cons e by simp
    finally have "xs = ?d @ ''.'' @ Join (idents (e # es)) ''.''" using es by simp
    then show ?thesis using Cons i by (simp add: x idents_Cons [of c xs])
  qed
qed

lemma idents_inj:
  assumes "x \<noteq> []" "y \<noteq> []" "hd x = hd y" "idents x = idents y"
  shows "x = y"
proof -
  have "tl x = tl y" using assms by (simp add: idents_join)
  with assms show ?thesis by (metis list.collapse)
qed

lemma idents_nonempty: "x \<noteq> [] \<Longrightarrow> idents x \<noteq> []"
  by (cases x) (simp_all add: idents_Cons)

lemma comparePrerelease_key:
  assumes "x = [] \<or> hd x = CHR ''-''" and "y = [] \<or> hd y = CHR ''-''"
  shows "comparePrerelease x y = three_way (prerelease_key x) (prerelease_key y)"
proof (cases "x = y")
  case True
  then show ?thesis by (simp add: comparePrerelease_def three_way_def)
next
  case neq: False
  show ?thesis
  proof (cases "x = [] \<or> y = []")
    case True
    with neq show ?thesis
      by (auto simp: comparePrerelease_def three_way_def prerelease_key_def idents_Nil)
  next
    case False
    with assms neq have "idents x \<noteq> idents y" using idents_inj by metis
    then have "map ident_key (idents x) \<noteq> map ident_key (idents y)"
      using inj_ident_key by (metis injI inj_map_eq_map)
    with False neq \<open>idents x \<noteq> idents y\<close> show ?thesis
      by (simp add: comparePrerelease_def comparePrerelease_loop_key three_way_def
            prerelease_key_def)
  qed
qed

lemma parsePrerelease_loop_ge: "parsePrerelease_loop v i start = Some j \<Longrightarrow> i \<le> j"
proof (induction v i start rule: parsePrerelease_loop.induct)
  case (1 v i start)
  show ?case
  proof (cases "i < length v \<and> v ! i \<noteq> CHR ''+''")
    case False
    with "1.prems" show ?thesis
      by (simp add: parsePrerelease_loop.simps [of v i start] split: if_splits)
  next
    case True
    show ?thesis
    proof (cases "v ! i = CHR ''.''")
      case dot: True
      with True "1.prems" have "parsePrerelease_loop v (i + 1) (i + 1) = Some j"
          and "\<not> (start = i \<or> isBadNum (slice v start i))"
        by (auto simp: parsePrerelease_loop.simps [of v i start] split: if_splits)
      with "1.IH"(1) [OF True _ dot] True dot have "i + 1 \<le> j" by auto
      then show ?thesis by simp
    next
      case nodot: False
      with True "1.prems" have "parsePrerelease_loop v (i + 1) start = Some j"
          and "\<not> (\<not> isIdentChar (v ! i) \<and> v ! i \<noteq> CHR ''.'')"
        by (auto simp: parsePrerelease_loop.simps [of v i start] split: if_splits)
      with "1.IH"(2) [OF True _ nodot] have "i + 1 \<le> j" by auto
      then show ?thesis by simp
    qed
  qed
qed

lemma parsePrerelease_dash:
  assumes "parsePrerelease v = Some (t, rest)"
  shows "t \<noteq> [] \<and> hd t = CHR ''-''"
proof -
  from assms obtain i where v: "v \<noteq> []" "hd v = CHR ''-''"
      and i: "parsePrerelease_loop v 1 1 = Some i" and t: "t = take i v"
    by (auto simp: parsePrerelease_def split: if_splits option.splits)
  from parsePrerelease_loop_ge [OF i] have "1 \<le> i" .
  with v t show ?thesis by (cases v; cases i) auto
qed

lemma parse_prerelease_dash:
  assumes "parse v = Some p"
  shows "prerelease p = [] \<or> hd (prerelease p) = CHR ''-''"
  using assms
  by (auto simp: parse_def Let_def split: if_splits option.splits prod.splits
           dest: parsePrerelease_dash)

lemma Compare_key: "Compare v w = three_way (version_key v) (version_key w)"
proof (cases "parse v")
  case None
  then show ?thesis
    by (cases "parse w") (simp_all add: Compare_def version_key_def three_way_def)
next
  case pv: (Some pv)
  show ?thesis
  proof (cases "parse w")
    case None
    with pv show ?thesis by (simp add: Compare_def version_key_def three_way_def)
  next
    case (Some pw)
    have pre: "comparePrerelease (prerelease pv) (prerelease pw)
               = three_way (prerelease_key (prerelease pv)) (prerelease_key (prerelease pw))"
      by (rule comparePrerelease_key [OF parse_prerelease_dash [OF pv] parse_prerelease_dash [OF Some]])
    show ?thesis
      unfolding Compare_def version_key_def pv Some
      by (simp add: compareInt_key pre) (auto simp: three_way_def split: if_splits)
  qed
qed

lemma Versions_less_key:
  "Versions_less a b \<longleftrightarrow>
     (version_key (Version_Version a), Version_Version a)
       < (version_key (Version_Version b), Version_Version b)"
  by (auto simp: Versions_less_def Compare_key three_way_def Let_def split: if_splits)


section \<open>Decoding the dependencies\<close>

lemma Dependencies_less_key:
  "Dependencies_less a b \<longleftrightarrow> Dependency_Name a < Dependency_Name b"
  by (simp add: Dependencies_less_def)

lemma Dependency_Name_of_entries:
  "map Dependency_Name
     (map (\<lambda>(k, v). \<lparr>Dependency_Name = k, Dependency_VersionRange = v\<rparr>) m) = map fst m"
  by (induction m) auto

lemma inj_on_Dependency_Name:
  assumes "distinct (map fst m)"
  shows "inj_on Dependency_Name
           (set (map (\<lambda>(k, v). \<lparr>Dependency_Name = k, Dependency_VersionRange = v\<rparr>) m))"
proof -
  let ?ds = "map (\<lambda>(k, v). \<lparr>Dependency_Name = k, Dependency_VersionRange = v\<rparr>) m"
  from assms have "distinct (map Dependency_Name ?ds)"
    by (simp only: Dependency_Name_of_entries)
  then show ?thesis by (simp only: distinct_map)
qed

text \<open>
  Claim C8. The map of dependencies that the decoder yields has pairwise distinct names;
  \<open>m\<close> and \<open>m'\<close> are its entries in two iteration orders. Decoding into an empty
  receiver returns, for both orders, the same list: the dependencies of the map, in
  strictly ascending order of their names. It is the only arrangement of these
  dependencies in which none is less than an earlier one, so the result does not depend
  on the algorithm that \<^verbatim>\<open>sort.Slice\<close> runs either.
\<close>

theorem Dependencies_UnmarshalJSON_sorted:
  assumes "distinct (map fst m)" and "mset m' = mset m"
  shows "\<exists>deps. Dependencies_UnmarshalJSON [] (Inr m) = Inr deps
           \<and> Dependencies_UnmarshalJSON [] (Inr m') = Inr deps
           \<and> sorted_wrt (<) (map Dependency_Name deps)
           \<and> mset deps =
               mset (map (\<lambda>(k, v). \<lparr>Dependency_Name = k, Dependency_VersionRange = v\<rparr>) m)
           \<and> (\<forall>other. mset other = mset deps
                         \<and> sorted_wrt (\<lambda>a b. \<not> Dependencies_less b a) other
                  \<longrightarrow> other = deps)"
proof -
  let ?mk = "\<lambda>(k, v). \<lparr>Dependency_Name = k, Dependency_VersionRange = v\<rparr>"
  let ?deps = "sort_Slice Dependencies_less (map ?mk m)"
  have perm: "mset (map ?mk m') = mset (map ?mk m)"
    using assms(2) by simp
  have inj: "inj_on Dependency_Name (set (map ?mk m))"
    by (rule inj_on_Dependency_Name [OF assms(1)])
  have same: "sort_Slice Dependencies_less (map ?mk m') = ?deps"
    by (rule sort_Slice_permutation [of Dependencies_less Dependency_Name,
          OF Dependencies_less_key perm inj])
  have sorted: "sorted (map Dependency_Name ?deps)"
    by (rule sorted_sort_Slice [of Dependencies_less Dependency_Name, OF Dependencies_less_key])
  have "distinct (map Dependency_Name (map ?mk m))"
    using assms(1) by (simp only: Dependency_Name_of_entries)
  moreover have "mset (map Dependency_Name ?deps) = mset (map Dependency_Name (map ?mk m))"
    by (simp only: mset_map mset_sort_Slice)
  ultimately have "distinct (map Dependency_Name ?deps)"
    by (metis mset_eq_imp_distinct_iff)
  with sorted have strict: "sorted_wrt (<) (map Dependency_Name ?deps)"
    by (simp add: strict_sorted_iff)
  have only: "other = ?deps"
    if "mset other = mset ?deps" and "sorted_wrt (\<lambda>a b. \<not> Dependencies_less b a) other" for other
  proof (rule sorted_permutation_unique [where f = Dependency_Name and xs = "map ?mk m"])
    show "mset other = mset (map ?mk m)" using that(1) by (simp only: mset_sort_Slice)
    show "sorted (map Dependency_Name other)"
      using that(2) by (simp only: sorted_by_key [of Dependencies_less Dependency_Name, OF Dependencies_less_key])
    show "mset ?deps = mset (map ?mk m)" by (simp only: mset_sort_Slice)
    show "sorted (map Dependency_Name ?deps)" by (rule sorted)
    show "inj_on Dependency_Name (set (map ?mk m))" by (rule inj)
  qed
  show ?thesis
  proof (intro exI conjI allI impI)
    show "Dependencies_UnmarshalJSON [] (Inr m) = Inr ?deps"
      by (simp add: Dependencies_UnmarshalJSON_def)
    show "Dependencies_UnmarshalJSON [] (Inr m') = Inr ?deps"
      by (simp add: Dependencies_UnmarshalJSON_def same)
    show "sorted_wrt (<) (map Dependency_Name ?deps)" by (rule strict)
    show "mset ?deps = mset (map ?mk m)" by (simp only: mset_sort_Slice)
    show "other = ?deps"
      if "mset other = mset ?deps \<and> sorted_wrt (\<lambda>a b. \<not> Dependencies_less b a) other" for other
      using that only by blast
  qed
qed

theorem Dependencies_UnmarshalJSON_sorted_witness:
  "distinct (map fst [(''vue'', ''^3.0.2''), (''@vue/reactivity'', ''^3.0.2''), (''lodash'', ''4.x'')])
   \<and> mset [(''lodash'', ''4.x''), (''vue'', ''^3.0.2''), (''@vue/reactivity'', ''^3.0.2'')]
       = mset [(''vue'', ''^3.0.2''), (''@vue/reactivity'', ''^3.0.2''), (''lodash'', ''4.x'')]
   \<and> Dependencies_UnmarshalJSON []
        (Inr [(''vue'', ''^3.0.2''), (''@vue/reactivity'', ''^3.0.2''), (''lodash'', ''4.x'')])
      = Inr [\<lparr>Dependency_Name = ''@vue/reactivity'', Dependency_VersionRange = ''^3.0.2''\<rparr>,
             \<lparr>Dependency_Name = ''lodash'', Dependency_VersionRange = ''4.x''\<rparr>,
             \<lparr>Dependency_Name = ''vue'', Dependency_VersionRange = ''^3.0.2''\<rparr>]
   \<and> Dependencies_UnmarshalJSON []
        (Inr [(''lodash'', ''4.x''), (''vue'', ''^3.0.2''), (''@vue/reactivity'', ''^3.0.2'')])
      = Inr [\<lparr>Dependency_Name = ''@vue/reactivity'', Dependency_VersionRange = ''^3.0.2''\<rparr>,
             \<lparr>Dependency_Name = ''lodash'', Dependency_VersionRange = ''4.x''\<rparr>,
             \<lparr>Dependency_Name = ''vue'', Dependency_VersionRange = ''^3.0.2''\<rparr>]"
proof -
  have d: "distinct (map fst [(''vue'', ''^3.0.2''), (''@vue/reactivity'', ''^3.0.2''), (''lodash'', ''4.x'')])"
    by simp
  have p: "mset [(''lodash'', ''4.x''), (''vue'', ''^3.0.2''), (''@vue/reactivity'', ''^3.0.2'')]
       = mset [(''vue'', ''^3.0.2''), (''@vue/reactivity'', ''^3.0.2''), (''lodash'', ''4.x'')]"
    by simp
  have e1: "Dependencies_UnmarshalJSON []
        (Inr [(''vue'', ''^3.0.2''), (''@vue/reactivity'', ''^3.0.2''), (''lodash'', ''4.x'')])
      = Inr [\<lparr>Dependency_Name = ''@vue/reactivity'', Dependency_VersionRange = ''^3.0.2''\<rparr>,
             \<lparr>Dependency_Name = ''lodash'', Dependency_VersionRange = ''4.x''\<rparr>,
             \<lparr>Dependency_Name = ''vue'', Dependency_VersionRange = ''^3.0.2''\<rparr>]"
    by code_simp
  from Dependencies_UnmarshalJSON_sorted [OF d p] d p e1 show ?thesis
    by auto
qed

section \<open>Decoding the versions\<close>

lemma Versions_less_eq_key:
  "(version_key (Version_Version a), Version_Version a)
     \<le> (version_key (Version_Version b), Version_Version b) \<longleftrightarrow>
   Compare (Version_Version a) (Version_Version b) < 0
   \<or> Compare (Version_Version a) (Version_Version b) = 0
      \<and> Version_Version a \<le> Version_Version b"
  by (auto simp: Compare_key three_way_def split: if_splits)

lemma decode_Version_map_entries:
  "decode_Version_map m = Inr (map (\<lambda>(k, j). (k, projr (decode_Version j))) m)"
proof (induction m rule: decode_Version_map.induct)
  case 1
  show ?case by simp
next
  case (2 k j js)
  have "\<exists>v. decode_Version j = Inr v"
    by (auto simp: decode_Version_def Dependencies_UnmarshalJSON_def split: option.splits)
  with 2 show ?case by auto
qed

lemma FetchPackage_Versions:
  assumes "registry (''https://registry.npmjs.org/'' @ s) = Responds status (Object j)"
    and "json_versions j = Some m"
  shows "\<exists>p. FetchPackage registry s = Inr p
           \<and> NpmPackage_Versions p =
               sort_Slice Versions_less
                 (map (\<lambda>(k, version).
                         version\<lparr>Version_Version := normalizeSemver (Version_Version version)\<rparr>)
                    (map (\<lambda>(k, j). (k, projr (decode_Version j))) m))"
  using assms
  by (simp add: FetchPackage_def Decode_def decode_Version_map_entries
        DistTags_UnmarshalJSON_def Versions_UnmarshalJSON_def split: option.splits)

text \<open>
  Claim C2, as stated: the order of the version list does not depend on the iteration
  order of the decoded map, ties being broken by the raw strings. The raw strings
  \<open>1.0.0\<close> and \<open>v1.0.0\<close> are both normalised to \<open>v1.0.0\<close> before the list is sorted; the
  comparison then sees two equal strings, and the two entries come out in the order in
  which the map handed them over.
\<close>

theorem FetchPackage_Versions_counterexample:
  "map (ShaSum \<circ> Version_Dist) (NpmPackage_Versions (projr (FetchPackage
      (registry_of [(''1.0.0'', example_version ''1.0.0'' ''aa''),
                    (''v1.0.0'', example_version ''v1.0.0'' ''bb'')]) ''p'')))
     = [''aa'', ''bb'']
   \<and> map (ShaSum \<circ> Version_Dist) (NpmPackage_Versions (projr (FetchPackage
      (registry_of [(''v1.0.0'', example_version ''v1.0.0'' ''bb''),
                    (''1.0.0'', example_version ''1.0.0'' ''aa'')]) ''p'')))
     = [''bb'', ''aa'']"
  by code_simp

text \<open>
  Claim C2, amended. Two registry documents hold the same map of versions, handed over
  in two iteration orders \<open>m\<close> and \<open>m'\<close>. \<^verbatim>\<open>FetchPackage\<close> succeeds on both; the list of
  versions is sorted ascending by \<^verbatim>\<open>semver.Compare\<close> on the normalised version strings,
  versions that compare equal being in the lexical order of their normalised strings;
  the sequence of version strings is the same for both orders, and the same in every
  arrangement of the list in which no version is less than an earlier one, so it does not
  depend on the algorithm that \<^verbatim>\<open>sort.Slice\<close> runs; and when the normalised version
  strings are pairwise distinct, the two lists are equal.
\<close>

theorem FetchPackage_Versions_sorted:
  assumes "registry (''https://registry.npmjs.org/'' @ s) = Responds status (Object j)"
    and "json_versions j = Some m"
    and "registry' (''https://registry.npmjs.org/'' @ s) = Responds status' (Object j')"
    and "json_versions j' = Some m'"
    and "mset m' = mset m"
  shows "\<exists>p p'. FetchPackage registry s = Inr p \<and> FetchPackage registry' s = Inr p'
           \<and> sorted_wrt (\<lambda>a b. Compare (Version_Version a) (Version_Version b) < 0
                               \<or> Compare (Version_Version a) (Version_Version b) = 0
                                  \<and> Version_Version a \<le> Version_Version b)
                (NpmPackage_Versions p)
           \<and> map Version_Version (NpmPackage_Versions p')
               = map Version_Version (NpmPackage_Versions p)
           \<and> (\<forall>other. mset other = mset (NpmPackage_Versions p)
                         \<and> sorted_wrt (\<lambda>a b. \<not> Versions_less b a) other
                  \<longrightarrow> map Version_Version other = map Version_Version (NpmPackage_Versions p))
           \<and> (distinct (map Version_Version (NpmPackage_Versions p))
                \<longrightarrow> NpmPackage_Versions p' = NpmPackage_Versions p)"
proof -
  let ?f = "\<lambda>a. (version_key (Version_Version a), Version_Version a)"
  let ?norm = "\<lambda>(k :: string, version).
                 version\<lparr>Version_Version := normalizeSemver (Version_Version version)\<rparr>"
  let ?dec = "\<lambda>(k :: string, j). (k, projr (decode_Version j))"
  let ?xs = "map ?norm (map ?dec m)" and ?xs' = "map ?norm (map ?dec m')"
  let ?vs = "sort_Slice Versions_less ?xs" and ?vs' = "sort_Slice Versions_less ?xs'"
  from FetchPackage_Versions [of registry s status j m, OF assms(1,2)] obtain p
    where p: "FetchPackage registry s = Inr p" "NpmPackage_Versions p = ?vs" by blast
  from FetchPackage_Versions [of registry' s status' j' m', OF assms(3,4)] obtain p'
    where p': "FetchPackage registry' s = Inr p'" "NpmPackage_Versions p' = ?vs'" by blast
  have perm: "mset ?xs' = mset ?xs"
    using assms(5) by simp
  have "sorted (map ?f ?vs)"
    by (rule sorted_sort_Slice [of Versions_less ?f, OF Versions_less_key])
  then have "sorted_wrt (\<lambda>a b. ?f a \<le> ?f b) ?vs"
    by (simp add: sorted_wrt_map)
  then have sorted: "sorted_wrt (\<lambda>a b. Compare (Version_Version a) (Version_Version b) < 0
                               \<or> Compare (Version_Version a) (Version_Version b) = 0
                                  \<and> Version_Version a \<le> Version_Version b) ?vs"
    by (simp only: Versions_less_eq_key)
  have "image_mset ?f (mset ?xs') = image_mset ?f (mset ?xs)"
    by (simp only: perm)
  then have "mset (map ?f ?xs') = mset (map ?f ?xs)"
    by (simp only: mset_map)
  then have "mset (sort (map ?f ?xs)) = mset (map ?f ?xs')"
    by (simp only: mset_sort)
  then have "sort (map ?f ?xs') = sort (map ?f ?xs)"
    by (rule properties_for_sort) (rule sorted_sort)
  then have keys: "map ?f ?vs' = map ?f ?vs"
    by (simp only: sort_Slice_keys [of Versions_less ?f, OF Versions_less_key])
  have strings: "map Version_Version ?vs' = map Version_Version ?vs"
  proof -
    have "map snd (map ?f ?vs') = map snd (map ?f ?vs)" by (simp only: keys)
    then show ?thesis by (simp only: map_map comp_def snd_conv)
  qed
  have same: "?vs' = ?vs" if d: "distinct (map Version_Version ?vs)"
  proof (rule sort_Slice_permutation [of Versions_less ?f, OF Versions_less_key perm])
    from d have "inj_on Version_Version (set ?vs)" by (simp add: distinct_map)
    then have "inj_on Version_Version (set ?xs)" by (simp only: set_sort_Slice)
    then show "inj_on ?f (set ?xs)" by (auto simp: inj_on_def)
  qed
  have any: "map Version_Version other = map Version_Version ?vs"
    if "mset other = mset ?vs" and "sorted_wrt (\<lambda>a b. \<not> Versions_less b a) other" for other
  proof -
    have "sorted (map ?f other)"
      using that(2) by (simp only: sorted_by_key [of Versions_less ?f, OF Versions_less_key])
    with that(1) have "map ?f other = sort (map ?f ?vs)"
      by (rule sorted_permutation_keys)
    also have "\<dots> = map ?f ?vs"
      by (rule sorted_sort_id) (rule sorted_sort_Slice [of Versions_less ?f, OF Versions_less_key])
    finally have "map snd (map ?f other) = map snd (map ?f ?vs)" by (simp only:)
    then show ?thesis by (simp only: map_map comp_def snd_conv)
  qed
  show ?thesis
  proof (intro exI conjI impI allI)
    show "FetchPackage registry s = Inr p" by fact
    show "FetchPackage registry' s = Inr p'" by fact
    show "sorted_wrt (\<lambda>a b. Compare (Version_Version a) (Version_Version b) < 0
                               \<or> Compare (Version_Version a) (Version_Version b) = 0
                                  \<and> Version_Version a \<le> Version_Version b)
                (NpmPackage_Versions p)"
      using sorted by (simp only: p)
    show "map Version_Version (NpmPackage_Versions p')
               = map Version_Version (NpmPackage_Versions p)"
      using strings by (simp only: p p')
    show "map Version_Version other = map Version_Version (NpmPackage_Versions p)"
      if "mset other = mset (NpmPackage_Versions p)
            \<and> sorted_wrt (\<lambda>a b. \<not> Versions_less b a) other" for other
      using any [of other] that by (simp only: p)
    show "NpmPackage_Versions p' = NpmPackage_Versions p"
      if "distinct (map Version_Version (NpmPackage_Versions p))"
      using same that by (simp only: p p')
  qed
qed

theorem FetchPackage_Versions_sorted_witness:
  "map Version_Version (NpmPackage_Versions (projr (FetchPackage
      (registry_of [(''1.0.0'', example_version ''1.0.0'' ''aa''),
                    (''2.0.0'', example_version ''2.0.0'' ''bb''),
                    (''1.5.0'', example_version ''1.5.0'' ''cc'')]) ''p'')))
     = [''v1.0.0'', ''v1.5.0'', ''v2.0.0'']
   \<and> map Version_Version (NpmPackage_Versions (projr (FetchPackage
      (registry_of [(''1.5.0'', example_version ''1.5.0'' ''cc''),
                    (''2.0.0'', example_version ''2.0.0'' ''bb''),
                    (''1.0.0'', example_version ''1.0.0'' ''aa'')]) ''p'')))
     = [''v1.0.0'', ''v1.5.0'', ''v2.0.0'']
   \<and> NpmPackage_Versions (projr (FetchPackage
      (registry_of [(''1.5.0'', example_version ''1.5.0'' ''cc''),
                    (''2.0.0'', example_version ''2.0.0'' ''bb''),
                    (''1.0.0'', example_version ''1.0.0'' ''aa'')]) ''p''))
     = NpmPackage_Versions (projr (FetchPackage
      (registry_of [(''1.0.0'', example_version ''1.0.0'' ''aa''),
                    (''2.0.0'', example_version ''2.0.0'' ''bb''),
                    (''1.5.0'', example_version ''1.5.0'' ''cc'')]) ''p''))"
proof -
  let ?m = "[(''1.0.0'', example_version ''1.0.0'' ''aa''),
             (''2.0.0'', example_version ''2.0.0'' ''bb''),
             (''1.5.0'', example_version ''1.5.0'' ''cc'')]"
  let ?m' = "[(''1.5.0'', example_version ''1.5.0'' ''cc''),
              (''2.0.0'', example_version ''2.0.0'' ''bb''),
              (''1.0.0'', example_version ''1.0.0'' ''aa'')]"
  let ?j = "\<lambda>m. \<lparr>json_package_name = ''p'', json_dist_tags = None, json_versions = Some m\<rparr>"
  have r: "registry_of ?m (''https://registry.npmjs.org/'' @ ''p'') = Responds 200 (Object (?j ?m))"
    by (simp add: registry_of_def)
  have r': "registry_of ?m' (''https://registry.npmjs.org/'' @ ''p'') = Responds 200 (Object (?j ?m'))"
    by (simp add: registry_of_def)
  have perm: "mset ?m' = mset ?m" by (simp add: add_mset_commute)
  have e: "map Version_Version (NpmPackage_Versions (projr (FetchPackage (registry_of ?m) ''p'')))
             = [''v1.0.0'', ''v1.5.0'', ''v2.0.0'']"
    by code_simp
  have v: "json_versions (?j ?m) = Some ?m" and v': "json_versions (?j ?m') = Some ?m'"
    by simp_all
  from FetchPackage_Versions_sorted
         [of "registry_of ?m" "''p''" 200 "?j ?m" ?m "registry_of ?m'" 200 "?j ?m'" ?m',
          OF r v r' v' perm] e
  show ?thesis
    by force
qed

section \<open>The route patterns\<close>











section \<open>The staging directory and the tarball\<close>

lemma dirs_os_Create: "os_Create fs name = Inr fs' \<Longrightarrow> dirs fs' = dirs fs"
  by (auto simp: os_Create_def split: if_splits)

lemma dirs_write_file: "dirs (write_file fs name bytes) = dirs fs"
  by (simp add: write_file_def)

lemma dirs_os_MkdirAll: "os_MkdirAll fs p = Inr fs' \<Longrightarrow> dirs fs \<subseteq> dirs fs'"
  by (auto simp: os_MkdirAll_def split: if_splits)

lemma dirs_downloadTarball: "dirs (fst (downloadTarball w fs dist target)) = dirs fs"
  by (auto simp: downloadTarball_def Let_def dirs_write_file dirs_os_Create
           split: sum.splits http_outcome.splits option.splits)

lemma dirs_untar_loop: "dirs fs \<subseteq> dirs (fst (untar_loop fs dst steps))"
proof (induction fs dst steps rule: untar_loop.induct)
  case (4 fs dst name flag content copy_error steps)
  let ?target = "filepath_Join [dst, name]"
  show ?case
  proof (cases flag)
    case TypeDir
    show ?thesis
    proof (cases "os_Stat fs ?target")
      case True
      with TypeDir "4.IH"(2) [OF refl TypeDir] show ?thesis by simp
    next
      case False
      show ?thesis
      proof (cases "os_MkdirAll fs ?target")
        case (Inl err)
        with TypeDir False show ?thesis by simp
      next
        case (Inr fs1)
        from "4.IH"(1) [OF refl TypeDir _ Inr] False
        have "dirs fs1 \<subseteq> dirs (fst (untar_loop fs1 dst steps))" by simp
        with dirs_os_MkdirAll [OF Inr] TypeDir False Inr show ?thesis by auto
      qed
    qed
  next
    case TypeReg
    show ?thesis
    proof (cases "os_MkdirAll fs (filepath_Dir ?target)")
      case (Inl err)
      with TypeReg show ?thesis by simp
    next
      case mk: (Inr fs1)
      show ?thesis
      proof (cases "os_Create fs1 ?target")
        case (Inl err)
        with TypeReg mk dirs_os_MkdirAll [OF mk] show ?thesis by simp
      next
        case cr: (Inr fs2)
        have d2: "dirs fs \<subseteq> dirs (write_file fs2 ?target content)"
          using dirs_os_MkdirAll [OF mk] dirs_os_Create [OF cr] by (simp add: dirs_write_file)
        show ?thesis
        proof (cases copy_error)
          case (Some msg)
          with TypeReg mk cr d2 show ?thesis by simp
        next
          case None
          from "4.IH"(3) [OF refl TypeReg mk cr refl None]
          have "dirs (write_file fs2 ?target content)
                  \<subseteq> dirs (fst (untar_loop (write_file fs2 ?target content) dst steps))" .
          with TypeReg mk cr d2 None show ?thesis by auto
        qed
      qed
    qed
  next
    case TypeOther
    with "4.IH"(4) [OF refl TypeOther] show ?thesis by simp
  qed
qed simp_all

lemma dirs_untar: "dirs fs \<subseteq> dirs (fst (untar w fs dst r))"
  by (auto simp: untar_def dirs_untar_loop [THEN subsetD] split: sum.splits)

lemma dirs_repackTarballAsZip:
  "dirs fs \<subseteq> dirs (fst (repackTarballAsZip w fs tarFilename version))"
proof -
  let ?tarDir = "filepath_Join [filepath_Dir tarFilename,
                     Version_Name version @ ''-'' @ Version_Version version @ ''-''
                       @ ShaSum (Version_Dist version)]"
  show ?thesis
  proof (cases "os_MkdirAll fs ?tarDir")
    case (Inl err)
    then show ?thesis by (simp add: repackTarballAsZip_def)
  next
    case mk: (Inr fs1)
    note d1 = dirs_os_MkdirAll [OF mk]
    show ?thesis
    proof (cases "os_Open fs1 tarFilename")
      case (Inl err)
      with mk d1 show ?thesis by (simp add: repackTarballAsZip_def)
    next
      case op: (Inr tf)
      obtain fs2 e where un: "untar w fs1 ?tarDir tf = (fs2, e)" by (cases "untar w fs1 ?tarDir tf")
      from dirs_untar [of fs1 w ?tarDir tf] un have d2: "dirs fs \<subseteq> dirs fs2" using d1 by auto
      show ?thesis
      proof (cases e)
        case (Some err)
        with mk op un d2 show ?thesis by (simp add: repackTarballAsZip_def)
      next
        case None
        show ?thesis
        proof (cases "os_Create fs2 (tarFilename @ ''.zip'')")
          case (Inl err)
          with mk op un None d2 show ?thesis by (simp add: repackTarballAsZip_def)
        next
          case cr: (Inr fs3)
          from dirs_os_Create [OF cr] d2 have "dirs fs \<subseteq> dirs fs3" by simp
          with mk op un None cr show ?thesis
            by (auto simp: repackTarballAsZip_def Let_def dirs_write_file split: sum.splits)
        qed
      qed
    qed
  qed
qed

lemma CreateZipFromVersion_keeps_tempDir:
  assumes "TempDir w = Inr tempDir"
  shows "tempDir \<in> dirs (fst (CreateZipFromVersion w fs last_version))"
proof -
  let ?fs1 = "fs\<lparr>dirs := insert tempDir (dirs fs)\<rparr>"
  let ?tar = "filepath_Join [tempDir, ReplaceAll (Version_Name last_version) ''/'' ''_'']"
  obtain fs2 e where dl: "downloadTarball w ?fs1 (Version_Dist last_version) ?tar = (fs2, e)"
    by (cases "downloadTarball w ?fs1 (Version_Dist last_version) ?tar")
  from dirs_downloadTarball [of w ?fs1 "Version_Dist last_version" ?tar] dl
  have d2: "tempDir \<in> dirs fs2" by simp
  show ?thesis
  proof (cases e)
    case (Some err)
    with assms dl d2 show ?thesis by (simp add: CreateZipFromVersion_def)
  next
    case None
    from dirs_repackTarballAsZip [of fs2 w ?tar last_version] d2
    have "tempDir \<in> dirs (fst (repackTarballAsZip w fs2 ?tar last_version))" by auto
    with assms dl None show ?thesis by (simp add: CreateZipFromVersion_def)
  qed
qed

text \<open>
  Claim C7 says that the staging directory is removed on every exit path. The handler
  removes it on one path only, after the archive was built and served. On every failure
  of \<^verbatim>\<open>CreateZipFromVersion\<close> after \<^verbatim>\<open>ioutil.TempDir\<close> made the directory (download,
  checksum, unpacking, archive builder), \<^verbatim>\<open>Zip\<close> answers with the failure and leaves the
  file system as \<^verbatim>\<open>CreateZipFromVersion\<close> left it: the staging directory is still there.
\<close>

theorem Zip_failure_keeps_staging_directory:
  assumes "FetchPackageVersion (npm_registry w) (NpmPackage mctx) (Version mctx) = Inr npmv"
    and "TempDir w = Inr tempDir"
    and "CreateZipFromVersion w fs npmv = (fs', Inl err)"
  shows "Zip w fs mctx = (fs', InternalServerError ''failed to create module zip'' err)
         \<and> tempDir \<in> dirs fs'"
proof -
  from CreateZipFromVersion_keeps_tempDir [OF assms(2), of fs npmv] assms(3)
  have "tempDir \<in> dirs fs'" by simp
  with assms(1,3) show ?thesis by (simp add: Zip_def)
qed

theorem Zip_failure_keeps_staging_directory_witness:
  "(\<exists>npmv. FetchPackageVersion (npm_registry world_not_found) (NpmPackage alpinejs_request)
              (Version alpinejs_request) = Inr npmv
          \<and> snd (CreateZipFromVersion world_not_found fs0 npmv)
              = Inl (DownloadFailed (BadStatus 404)))
   \<and> TempDir world_not_found = Inr ''/tmp/npmgop123''
   \<and> snd (Zip world_not_found fs0 alpinejs_request)
       = InternalServerError ''failed to create module zip'' (DownloadFailed (BadStatus 404))
   \<and> ''/tmp/npmgop123'' \<in> dirs (fst (Zip world_not_found fs0 alpinejs_request))
   \<and> files (fst (Zip world_not_found fs0 alpinejs_request)) ''/tmp/npmgop123/alpinejs'' = Some []
   \<and> snd (Zip world_good fs0 alpinejs_request) = Content ''/tmp/npmgop123/alpinejs.zip'' ''PK''
   \<and> ''/tmp/npmgop123'' \<notin> dirs (fst (Zip world_good fs0 alpinejs_request))
   \<and> files (fst (Zip world_good fs0 alpinejs_request)) ''/tmp/npmgop123/alpinejs'' = None"
proof -
  let ?npmv = "\<lparr>Version_Name = ''alpinejs'', Version_Version = ''v3.3.3'',
               Version_Dependencies =
                 [\<lparr>Dependency_Name = ''@vue/reactivity'', Dependency_VersionRange = ''^3.0.2''\<rparr>],
               Version_Dist = \<lparr>ShaSum = ''966c94b6847f3d6840c5750e0b14caec82214e56'',
                   Tarball = ''https://registry.npmjs.org/alpinejs/-/alpinejs-3.3.3.tgz''\<rparr>\<rparr>"
  have f: "FetchPackageVersion (npm_registry world_not_found) (NpmPackage alpinejs_request)
              (Version alpinejs_request) = Inr ?npmv"
    by code_simp
  have t: "TempDir world_not_found = Inr ''/tmp/npmgop123''"
    by (simp add: world_not_found_def world_of_def)
  obtain fs' where c: "CreateZipFromVersion world_not_found fs0 ?npmv
                         = (fs', Inl (DownloadFailed (BadStatus 404)))"
  proof -
    have "snd (CreateZipFromVersion world_not_found fs0 ?npmv) = Inl (DownloadFailed (BadStatus 404))"
      by code_simp
    then show ?thesis using that by (cases "CreateZipFromVersion world_not_found fs0 ?npmv") auto
  qed
  have left: "files (fst (Zip world_not_found fs0 alpinejs_request)) ''/tmp/npmgop123/alpinejs'' = Some []"
    by code_simp
  have good: "snd (Zip world_good fs0 alpinejs_request) = Content ''/tmp/npmgop123/alpinejs.zip'' ''PK''"
    "''/tmp/npmgop123'' \<notin> dirs (fst (Zip world_good fs0 alpinejs_request))"
    "files (fst (Zip world_good fs0 alpinejs_request)) ''/tmp/npmgop123/alpinejs'' = None"
    by code_simp+
  from Zip_failure_keeps_staging_directory [OF f t c] f c t left good
  show ?thesis by simp
qed

lemma files_write_file:
  "files (write_file fs name bytes) name
     = Some ((case files fs name of None \<Rightarrow> [] | Some old \<Rightarrow> old) @ bytes)"
  by (simp add: write_file_def)

lemma files_os_Create: "os_Create fs name = Inr fs' \<Longrightarrow> files fs' name = Some []"
  by (auto simp: os_Create_def split: if_splits)

text \<open>
  Claim C1 says that on a checksum mismatch the download fails and the destination file
  is deleted. The first half holds: when the file could be created, the response has
  status 200, the stream ends without error and the digest of the received bytes is not
  the declared checksum, \<^verbatim>\<open>downloadTarball\<close> returns the mismatch. The second half does
  not: the destination is still a file, and it holds the received bytes; neither
  \<^verbatim>\<open>CreateZipFromVersion\<close> nor the handler removes it afterwards.
\<close>

theorem downloadTarball_checksum_mismatch:
  assumes "os_Create fs target = Inr fs1"
    and "tarball_host w (Tarball dist) = Responds 200 resp"
    and "read_error resp = None"
    and "sha1_hex w (received resp) \<noteq> ShaSum dist"
  shows "snd (downloadTarball w fs dist target) = Some ShasumMismatch
         \<and> files (fst (downloadTarball w fs dist target)) target = Some (received resp)"
  using assms files_os_Create [OF assms(1)]
  by (simp add: downloadTarball_def Let_def files_write_file)

theorem downloadTarball_checksum_mismatch_witness:
  "(\<exists>fs1. os_Create (fs0\<lparr>dirs := insert ''/tmp/npmgop123'' (dirs fs0)\<rparr>) ''/tmp/npmgop123/alpinejs''
            = Inr fs1)
   \<and> tarball_host world_tampered ''https://registry.npmjs.org/alpinejs/-/alpinejs-3.3.3.tgz''
       = Responds 200 \<lparr>received = ''other bytes'', read_error = None\<rparr>
   \<and> sha1_hex world_tampered ''other bytes'' \<noteq> ''966c94b6847f3d6840c5750e0b14caec82214e56''
   \<and> snd (downloadTarball world_tampered (fs0\<lparr>dirs := insert ''/tmp/npmgop123'' (dirs fs0)\<rparr>)
            (json_dist alpinejs_3_3_3) ''/tmp/npmgop123/alpinejs'') = Some ShasumMismatch
   \<and> files (fst (downloadTarball world_tampered (fs0\<lparr>dirs := insert ''/tmp/npmgop123'' (dirs fs0)\<rparr>)
            (json_dist alpinejs_3_3_3) ''/tmp/npmgop123/alpinejs'')) ''/tmp/npmgop123/alpinejs''
       = Some ''other bytes''
   \<and> snd (Zip world_tampered fs0 alpinejs_request)
       = InternalServerError ''failed to create module zip'' (DownloadFailed ShasumMismatch)
   \<and> files (fst (Zip world_tampered fs0 alpinejs_request)) ''/tmp/npmgop123/alpinejs''
       = Some ''other bytes''"
proof -
  let ?fs = "fs0\<lparr>dirs := insert ''/tmp/npmgop123'' (dirs fs0)\<rparr>"
  let ?dist = "json_dist alpinejs_3_3_3"
  have c: "os_Create ?fs ''/tmp/npmgop123/alpinejs''
             = Inr (?fs\<lparr>files := (files ?fs)(''/tmp/npmgop123/alpinejs'' \<mapsto> [])\<rparr>)"
  proof -
    have "filepath_Dir ''/tmp/npmgop123/alpinejs'' = ''/tmp/npmgop123''" by code_simp
    then show ?thesis by (simp add: os_Create_def fs0_def)
  qed
  have h: "tarball_host world_tampered (Tarball ?dist)
             = Responds 200 \<lparr>received = ''other bytes'', read_error = None\<rparr>"
    by (simp add: world_tampered_def world_of_def)
  have r: "read_error \<lparr>received = ''other bytes'', read_error = None\<rparr> = None" by simp
  have d: "sha1_hex world_tampered (received \<lparr>received = ''other bytes'', read_error = None\<rparr>)
             \<noteq> ShaSum ?dist"
    by (simp add: world_tampered_def world_of_def alpinejs_3_3_3_def)
  have z: "snd (Zip world_tampered fs0 alpinejs_request)
             = InternalServerError ''failed to create module zip'' (DownloadFailed ShasumMismatch)"
    "files (fst (Zip world_tampered fs0 alpinejs_request)) ''/tmp/npmgop123/alpinejs''
       = Some ''other bytes''"
    by code_simp+
  from downloadTarball_checksum_mismatch [OF c h r d] c h d z
  show ?thesis by (simp add: alpinejs_3_3_3_def world_tampered_def world_of_def)
qed


section \<open>The path of the module\<close>

lemma Clean_loop_Nil: "Clean_loop rooted [] out dotdot = out"
  by (simp add: Clean_loop.simps)

lemma Clean_loop_slash: "Clean_loop rooted (CHR ''/'' # p) out dotdot = Clean_loop rooted p out dotdot"
  by (simp add: Clean_loop.simps [of rooted "CHR ''/'' # p"])

lemma Clean_loop_element:
  assumes "plain_element e" and "rest = [] \<or> hd rest = CHR ''/''"
  shows "Clean_loop False (e @ rest) out dotdot =
           Clean_loop False rest ((if out \<noteq> [] then out @ ''/'' else out) @ e) dotdot"
proof -
  from assms(1) obtain c cs where e: "e = c # cs" and c: "c \<noteq> CHR ''/''"
      and cs: "CHR ''/'' \<notin> set cs"
    by (cases e) (auto simp: plain_element_def)
  have no_dot: "\<not> (c = CHR ''.'' \<and> (cs @ rest = [] \<or> hd (cs @ rest) = CHR ''/''))"
    using assms(1) e cs by (cases cs) (auto simp: plain_element_def)
  have no_dotdot: "\<not> (c = CHR ''.'' \<and> hd (cs @ rest) = CHR ''.''
                       \<and> (drop 1 (cs @ rest) = [] \<or> hd (drop 1 (cs @ rest)) = CHR ''/''))"
  proof (cases cs)
    case Nil
    with no_dot assms(2) show ?thesis by auto
  next
    case (Cons d ds)
    with assms(1) e cs show ?thesis by (cases ds) (auto simp: plain_element_def)
  qed
  have all: "\<forall>x\<in>set e. x \<noteq> CHR ''/''"
    using e c cs by auto
  have tw: "takeWhile (\<lambda>c. c \<noteq> CHR ''/'') (e @ rest) = e"
  proof (cases rest)
    case Nil
    with all show ?thesis by (simp add: takeWhile_eq_all_conv)
  next
    case (Cons r rs)
    with assms(2) have "r = CHR ''/''" by simp
    with Cons all show ?thesis by (simp add: takeWhile_tail takeWhile_eq_all_conv)
  qed
  have dw: "dropWhile (\<lambda>c. c \<noteq> CHR ''/'') (e @ rest) = rest"
  proof (cases rest)
    case Nil
    with all show ?thesis by (simp add: dropWhile_eq_Nil_conv)
  next
    case (Cons r rs)
    with assms(2) have "r = CHR ''/''" by simp
    with Cons all show ?thesis by (simp add: dropWhile_append3 dropWhile_eq_Nil_conv)
  qed
  show ?thesis
    using no_dot no_dotdot c tw dw
    by (subst Clean_loop.simps) (auto simp: e)
qed

lemma Clean_loop_elements:
  assumes "list_all plain_element es" and "es \<noteq> []" and "tail = [] \<or> tail = ''/''"
  shows "Clean_loop False (Join es ''/'' @ tail) out dotdot =
           (if out \<noteq> [] then out @ ''/'' else out) @ Join es ''/''"
  using assms
proof (induction es arbitrary: out)
  case Nil
  then show ?case by simp
next
  case (Cons e es)
  show ?case
  proof (cases es)
    case Nil
    with Cons.prems have "Clean_loop False (e @ tail) out dotdot =
        Clean_loop False tail ((if out \<noteq> [] then out @ ''/'' else out) @ e) dotdot"
      by (intro Clean_loop_element) auto
    with Nil Cons.prems(3) show ?thesis
      by (auto simp: Clean_loop_Nil Clean_loop_slash)
  next
    case (Cons e' es')
    let ?out = "(if out \<noteq> [] then out @ ''/'' else out) @ e"
    from Cons.prems have pe: "plain_element e" by simp
    then have ne: "?out \<noteq> []" by (auto simp: plain_element_def)
    have "Clean_loop False (e @ (''/'' @ Join es ''/'' @ tail)) out dotdot =
            Clean_loop False (''/'' @ Join es ''/'' @ tail) ?out dotdot"
      by (rule Clean_loop_element [OF pe]) simp
    also have "\<dots> = Clean_loop False (Join es ''/'' @ tail) ?out dotdot"
      by (simp add: Clean_loop_slash)
    also have "\<dots> = (if ?out \<noteq> [] then ?out @ ''/'' else ?out) @ Join es ''/''"
      using Cons.prems Cons by (intro Cons.IH) auto
    finally show ?thesis using ne Cons by simp
  qed
qed

lemma Join_nonempty:
  assumes "es \<noteq> []" and "list_all plain_element es"
  shows "Join es ''/'' \<noteq> []"
proof (cases es)
  case Nil
  with assms show ?thesis by simp
next
  case (Cons e es')
  with assms show ?thesis by (cases es') (auto simp: plain_element_def)
qed

lemma hd_Join: "list_all plain_element (e # es) \<Longrightarrow> hd (Join (e # es) ''/'') = hd e"
  by (cases es) (auto simp: plain_element_def)

lemma Clean_elements:
  assumes "list_all plain_element es" and "es \<noteq> []" and "tail = [] \<or> tail = ''/''"
  shows "Clean (Join es ''/'' @ tail) = Join es ''/''"
proof -
  from assms obtain e es' where es: "es = e # es'" by (cases es) auto
  with assms have pe: "plain_element e" by simp
  then have "hd e \<noteq> CHR ''/''" by (cases e) (auto simp: plain_element_def)
  moreover have "hd (Join es ''/'') = hd e"
    using assms(1) es by (simp only: hd_Join)
  moreover have ne: "Join es ''/'' \<noteq> []" using assms by (simp add: Join_nonempty)
  ultimately have "hd (Join es ''/'' @ tail) \<noteq> CHR ''/''" by simp
  with ne show ?thesis
    by (simp add: Clean_def Clean_loop_elements [OF assms])
qed

lemma Join_append:
  "xs \<noteq> [] \<Longrightarrow> ys \<noteq> [] \<Longrightarrow> Join (xs @ ys) sep = Join xs sep @ sep @ Join ys sep"
proof (induction xs)
  case Nil
  then show ?case by simp
next
  case (Cons x xs)
  then show ?case by (cases xs; cases ys) auto
qed

lemma parseInt_Some:
  assumes "parseInt v = Some (t, rest)"
  shows "t = takeWhile isDigit v \<and> t \<noteq> [] \<and> v = t @ rest"
proof -
  from assms have v: "v \<noteq> []" and d: "\<not> (hd v < CHR ''0'' \<or> CHR ''9'' < hd v)"
      and t: "t = take (digits v) v" and r: "rest = drop (digits v) v"
    by (auto simp: parseInt_def Let_def split: if_splits)
  have tw: "take (digits v) v = takeWhile isDigit v"
    by (simp add: digits_def takeWhile_eq_take [symmetric])
  from v d have "isDigit (hd v)" by (auto simp: isDigit_def not_less)
  with v have ne: "takeWhile isDigit v \<noteq> []" by (cases v) auto
  have "v = t @ rest" by (simp only: t r append_take_drop_id)
  moreover have "t = takeWhile isDigit v" by (simp only: t tw)
  ultimately show ?thesis using ne by simp
qed

lemma parse_major:
  assumes "parse v = Some pv"
  shows "Major v = CHR ''v'' # major pv \<and> major pv \<noteq> []
         \<and> (\<forall>c\<in>set (major pv). isDigit c)"
proof -
  from assms obtain v1 where v: "v \<noteq> []" "hd v = CHR ''v''"
      and pi: "parseInt (tl v) = Some (major pv, v1)"
    by (auto simp: parse_def Let_def split: if_splits option.splits prod.splits)
  note ps = parseInt_Some [OF pi]
  from ps have m: "major pv = takeWhile isDigit (tl v)" "major pv \<noteq> []"
    by blast+
  from ps have tlv: "tl v = major pv @ v1" by blast
  from v tlv have eq: "v = CHR ''v'' # major pv @ v1" by (cases v) auto
  have "take (1 + length (major pv)) v = CHR ''v'' # major pv"
    by (subst eq) simp
  moreover have "\<forall>c\<in>set (major pv). isDigit c"
  proof
    fix c assume "c \<in> set (major pv)"
    then have "c \<in> set (takeWhile isDigit (tl v))" by (simp only: m(1) [symmetric])
    then show "isDigit c" by (rule set_takeWhileD [THEN conjunct2])
  qed
  ultimately show ?thesis using assms m(2) by (simp add: Major_def)
qed

lemma plain_element_Major:
  assumes "parse v = Some pv"
  shows "plain_element (Major v)"
proof -
  from parse_major [OF assms] have M: "Major v = CHR ''v'' # major pv"
      and d: "\<forall>c\<in>set (major pv). isDigit c" by auto
  have "\<not> isDigit CHR ''/''" by (simp add: isDigit_def)
  with d have "CHR ''/'' \<notin> set (major pv)" by blast
  with M show ?thesis by (simp add: plain_element_def)
qed

lemma ModPathBase_elements: "ModPathBase = Join [''gohugo.io'', ''npmjs''] ''/''"
  by (simp add: ModPathBase_def)

lemma zip_module_path:
  assumes "parse (Version_Version version) = Some pv"
    and "EscapePackage (Version_Name version) = Join es ''/''"
    and "es \<noteq> []" and "list_all plain_element es"
  shows "module_Path (zip_module version) =
           ModPathBase @ ''/'' @ EscapePackage (Version_Name version)
             @ (if major pv = ''1'' then [] else ''/v'' @ major pv)"
proof -
  let ?base = "[''gohugo.io'', ''npmjs'']"
  let ?M = "Major (Version_Version version)"
  let ?n = "EscapePackage (Version_Name version)"
  define J where "J = Join (?base @ es) ''/''"
  from parse_major [OF assms(1)] have M: "?M = CHR ''v'' # major pv" by simp
  have plain: "list_all plain_element (?base @ es)"
    using assms(4) by (simp add: plain_element_def)
  have "Join (?base @ es) ''/'' = Join ?base ''/'' @ ''/'' @ Join es ''/''"
    by (rule Join_append) (use assms(3) in simp_all)
  then have prefix: "J = ModPathBase @ ''/'' @ ?n"
    by (simp only: J_def assms(2) ModPathBase_elements)
  have c1: "Clean (J @ ''/'') = J"
    unfolding J_def by (rule Clean_elements [OF plain]) simp_all
  have c2: "Clean (J @ ''/'' @ ?M) = J @ ''/'' @ ?M"
  proof -
    have pM: "plain_element ?M" by (rule plain_element_Major [OF assms(1)])
    have j: "Join ((?base @ es) @ [?M]) ''/'' = J @ ''/'' @ ?M"
      unfolding J_def by (rule Join_append [where ys = "[?M]", simplified]) simp
    have "Clean (Join ((?base @ es) @ [?M]) ''/'' @ []) = Join ((?base @ es) @ [?M]) ''/''"
      by (rule Clean_elements) (use plain pM in simp_all)
    then show ?thesis by (simp only: j append_Nil2)
  qed
  have pj: "path_Join [ModPathBase, ?n, m] = Clean (J @ ''/'' @ m)" for m
  proof -
    have "dropWhile (\<lambda>e. e = []) [ModPathBase, ?n, m] = [ModPathBase, ?n, m]"
      by (simp add: ModPathBase_def)
    then show ?thesis by (simp add: path_Join_def prefix)
  qed
  have path: "module_Path (zip_module version) =
                path_Join [ModPathBase, ?n, if ?M = ''v1'' then [] else ?M]"
    by (simp add: zip_module_def Let_def)
  show ?thesis
  proof (cases "major pv = ''1''")
    case True
    then have "module_Path (zip_module version) = Clean (J @ ''/'' @ [])"
      by (simp add: path pj M)
    also have "\<dots> = J" using c1 by simp
    finally show ?thesis using True by (simp add: prefix)
  next
    case False
    then have "module_Path (zip_module version) = Clean (J @ ''/'' @ ?M)"
      by (simp add: path pj M)
    also have "\<dots> = J @ ''/'' @ ?M" by (rule c2)
    finally show ?thesis using False by (simp add: prefix M)
  qed
qed

text \<open>
  A version that is not a valid semantic version has no major component, and its module
  path has no suffix.
\<close>

lemma zip_module_path_invalid:
  assumes "parse (Version_Version version) = None"
    and "EscapePackage (Version_Name version) = Join es ''/''"
    and "es \<noteq> []" and "list_all plain_element es"
  shows "module_Path (zip_module version) =
           ModPathBase @ ''/'' @ EscapePackage (Version_Name version)"
proof -
  let ?base = "[''gohugo.io'', ''npmjs'']"
  let ?n = "EscapePackage (Version_Name version)"
  define J where "J = Join (?base @ es) ''/''"
  have plain: "list_all plain_element (?base @ es)"
    using assms(4) by (simp add: plain_element_def)
  have "Join (?base @ es) ''/'' = Join ?base ''/'' @ ''/'' @ Join es ''/''"
    by (rule Join_append) (use assms(3) in simp_all)
  then have prefix: "J = ModPathBase @ ''/'' @ ?n"
    by (simp only: J_def assms(2) ModPathBase_elements)
  have c1: "Clean (J @ ''/'') = J"
    unfolding J_def by (rule Clean_elements [OF plain]) simp_all
  have "dropWhile (\<lambda>e. e = []) [ModPathBase, ?n, []] = [ModPathBase, ?n, []]"
    by (simp add: ModPathBase_def)
  then have "path_Join [ModPathBase, ?n, []] = Clean (J @ ''/'')"
    by (simp add: path_Join_def prefix)
  moreover have "module_Path (zip_module version) = path_Join [ModPathBase, ?n, []]"
    using assms(1) by (simp add: zip_module_def Let_def Major_def)
  ultimately show ?thesis using c1 prefix by simp
qed

lemma isl_projr: "\<not> isl x \<Longrightarrow> x = Inr (projr x)"
  by (cases x) simp_all

text \<open>
  Claim C4, as stated: for every package version that is repacked, the module path is the
  base path, the escaped name and the suffix of the major version. \<^verbatim>\<open>path.Join\<close> cleans the
  path it joins: for the package name \<^verbatim>\<open>a/../b\<close>, which escaping leaves as it is, at
  version 2.0.0 the archive is built, and the builder is handed the module path
  \<^verbatim>\<open>gohugo.io/npmjs/b/v2\<close>, in which the escaped name does not occur.
\<close>

theorem repackTarballAsZip_module_identity_counterexample:
  "EscapePackage ''a/../b'' = ''a/../b''
   \<and> Major ''v2.0.0'' = ''v2''
   \<and> snd (repackTarballAsZip world_echo (fs_downloaded ''/tmp/npmgop123/a_.._b'')
            ''/tmp/npmgop123/a_.._b'' (example_Version ''a/../b'' ''v2.0.0''))
       = Inr ''/tmp/npmgop123/a_.._b.zip''
   \<and> files (fst (repackTarballAsZip world_echo (fs_downloaded ''/tmp/npmgop123/a_.._b'')
            ''/tmp/npmgop123/a_.._b'' (example_Version ''a/../b'' ''v2.0.0'')))
         ''/tmp/npmgop123/a_.._b.zip''
       = Some ''gohugo.io/npmjs/b/v2 v2.0.0''
   \<and> ''gohugo.io/npmjs/b/v2'' \<noteq> ModPathBase @ ''/'' @ EscapePackage ''a/../b'' @ ''/v2''"
  by code_simp

text \<open>
  Claim C4, amended. The escaped name of the package is a path of plain elements (not
  empty, without slash, neither \<^verbatim>\<open>.\<close> nor \<^verbatim>\<open>..\<close>; so are \<open>alpinejs\<close> and
  \<open>___vue/reactivity\<close>), and \<^verbatim>\<open>repackTarballAsZip\<close> gets as far as the archive builder: the
  directory for the unpacked tarball is made, the tarball is opened and unpacked, the
  file of the archive is created. Then what it returns is what the builder returns for
  this module, the staging directory and the file: the version of the module is the
  version string, and its path is the base path, a slash and the escaped name, followed
  by nothing exactly when the version is a valid semantic version with major component
  1 or is not a valid semantic version, and by a slash and \<open>v\<close> with the major component
  otherwise: \<open>/v3\<close> for a version 3.x.
\<close>

theorem repackTarballAsZip_module_identity:
  assumes "EscapePackage (Version_Name version) = Join es ''/''"
    and "es \<noteq> []" and "list_all plain_element es"
    and "tarDir = filepath_Join [filepath_Dir tarFilename,
                    Version_Name version @ ''-'' @ Version_Version version @ ''-''
                      @ ShaSum (Version_Dist version)]"
    and "os_MkdirAll fs tarDir = Inr fs1"
    and "os_Open fs1 tarFilename = Inr tf"
    and "untar w fs1 tarDir tf = (fs2, None)"
    and "os_Create fs2 (tarFilename @ ''.zip'') = Inr fs3"
  shows "repackTarballAsZip w fs tarFilename version =
           (case CreateFromDir w
                   \<lparr>module_Path =
                      ModPathBase @ ''/'' @ EscapePackage (Version_Name version)
                        @ (case parse (Version_Version version) of
                             None \<Rightarrow> []
                           | Some pv \<Rightarrow> if major pv = ''1'' then [] else ''/v'' @ major pv),
                    module_Version = Version_Version version\<rparr>
                   fs3 tarDir of
              Inl msg \<Rightarrow> (fs3, Inl (ZipError msg))
            | Inr bytes \<Rightarrow>
                (write_file fs3 (tarFilename @ ''.zip'') bytes, Inr (tarFilename @ ''.zip'')))"
proof -
  have path: "module_Path (zip_module version) =
                ModPathBase @ ''/'' @ EscapePackage (Version_Name version)
                  @ (case parse (Version_Version version) of
                       None \<Rightarrow> []
                     | Some pv \<Rightarrow> if major pv = ''1'' then [] else ''/v'' @ major pv)"
  proof (cases "parse (Version_Version version)")
    case None
    with zip_module_path_invalid [OF None assms(1-3)] show ?thesis by simp
  next
    case (Some pv)
    with zip_module_path [OF Some assms(1-3)] show ?thesis by simp
  qed
  have "module_Version (zip_module version) = Version_Version version"
    by (simp add: zip_module_def Let_def)
  with path have m: "zip_module version =
      \<lparr>module_Path =
         ModPathBase @ ''/'' @ EscapePackage (Version_Name version)
           @ (case parse (Version_Version version) of
                None \<Rightarrow> []
              | Some pv \<Rightarrow> if major pv = ''1'' then [] else ''/v'' @ major pv),
       module_Version = Version_Version version\<rparr>"
    by (cases "zip_module version") simp
  show ?thesis
    unfolding repackTarballAsZip_def Let_def assms(4) [symmetric]
    by (simp only: assms(5-8) m sum.case prod.case option.case)
qed

theorem repackTarballAsZip_module_identity_witness:
  "EscapePackage ''alpinejs'' = Join [''alpinejs''] ''/'' \<and> list_all plain_element [''alpinejs'']
   \<and> EscapePackage ''@vue/reactivity'' = Join [''___vue'', ''reactivity''] ''/''
   \<and> list_all plain_element [''___vue'', ''reactivity'']
   \<and> snd (repackTarballAsZip world_echo (fs_downloaded ''/tmp/npmgop123/alpinejs'')
            ''/tmp/npmgop123/alpinejs'' (example_Version ''alpinejs'' ''v3.3.3''))
       = Inr ''/tmp/npmgop123/alpinejs.zip''
   \<and> files (fst (repackTarballAsZip world_echo (fs_downloaded ''/tmp/npmgop123/alpinejs'')
            ''/tmp/npmgop123/alpinejs'' (example_Version ''alpinejs'' ''v3.3.3'')))
         ''/tmp/npmgop123/alpinejs.zip''
       = Some ''gohugo.io/npmjs/alpinejs/v3 v3.3.3''
   \<and> files (fst (repackTarballAsZip world_echo (fs_downloaded ''/tmp/npmgop123/@vue_reactivity'')
            ''/tmp/npmgop123/@vue_reactivity'' (example_Version ''@vue/reactivity'' ''v1.0.2'')))
         ''/tmp/npmgop123/@vue_reactivity.zip''
       = Some ''gohugo.io/npmjs/___vue/reactivity v1.0.2''"
proof -
  let ?fs = "fs_downloaded ''/tmp/npmgop123/alpinejs''"
  let ?tar = "''/tmp/npmgop123/alpinejs''"
  let ?v = "example_Version ''alpinejs'' ''v3.3.3''"
  let ?dir = "filepath_Join [filepath_Dir ?tar,
                Version_Name ?v @ ''-'' @ Version_Version ?v @ ''-'' @ ShaSum (Version_Dist ?v)]"
  let ?fs1 = "projr (os_MkdirAll ?fs ?dir)"
  let ?tf = "projr (os_Open ?fs1 ?tar)"
  let ?fs2 = "fst (untar world_echo ?fs1 ?dir ?tf)"
  let ?fs3 = "projr (os_Create ?fs2 (?tar @ ''.zip''))"
  have e: "EscapePackage (Version_Name ?v) = Join [''alpinejs''] ''/''" by code_simp
  have pl: "list_all plain_element [''alpinejs'']" by (simp add: plain_element_def)
  have "\<not> isl (os_MkdirAll ?fs ?dir)" by code_simp
  then have s1: "os_MkdirAll ?fs ?dir = Inr ?fs1" by (rule isl_projr)
  have "\<not> isl (os_Open ?fs1 ?tar)" by code_simp
  then have s2: "os_Open ?fs1 ?tar = Inr ?tf" by (rule isl_projr)
  have "snd (untar world_echo ?fs1 ?dir ?tf) = None" by code_simp
  then have s3: "untar world_echo ?fs1 ?dir ?tf = (?fs2, None)"
    by (metis prod.collapse)
  have "\<not> isl (os_Create ?fs2 (?tar @ ''.zip''))" by code_simp
  then have s4: "os_Create ?fs2 (?tar @ ''.zip'') = Inr ?fs3" by (rule isl_projr)
  have p: "parse (Version_Version ?v) = Some \<lparr>major = ''3'', minor = ''3'', patch = ''3'',
              short = [], prerelease = [], build = []\<rparr>"
    by code_simp
  have b: "CreateFromDir world_echo m fs dir = Inr (module_Path m @ '' '' @ module_Version m)"
    for m fs dir
    by (simp add: world_echo_def)
  have n: "Version_Name ?v = ''alpinejs''" "Version_Version ?v = ''v3.3.3''"
    by (simp_all add: example_Version_def)
  have "repackTarballAsZip world_echo ?fs ?tar ?v =
          (write_file ?fs3 (?tar @ ''.zip'')
             (ModPathBase @ ''/'' @ EscapePackage ''alpinejs'' @ ''/v3'' @ '' '' @ ''v3.3.3''),
           Inr (?tar @ ''.zip''))"
    using repackTarballAsZip_module_identity
            [of ?v "[''alpinejs'']" ?dir ?tar ?fs ?fs1 ?tf world_echo ?fs2 ?fs3,
             OF e _ pl refl s1 s2 s3 s4]
    apply (simp only: p b option.case sum.case)
    apply (simp only: n)
    apply simp
    done
  moreover have c0: "files ?fs3 ''/tmp/npmgop123/alpinejs.zip'' = Some []"
    using files_os_Create [OF s4] by simp
  ultimately have r: "snd (repackTarballAsZip world_echo ?fs ?tar ?v) = Inr ''/tmp/npmgop123/alpinejs.zip''"
    "files (fst (repackTarballAsZip world_echo ?fs ?tar ?v)) ''/tmp/npmgop123/alpinejs.zip''
       = Some (ModPathBase @ ''/'' @ EscapePackage ''alpinejs'' @ ''/v3'' @ '' '' @ ''v3.3.3'')"
    by (simp_all add: files_write_file)
  have scoped: "EscapePackage ''@vue/reactivity'' = Join [''___vue'', ''reactivity''] ''/''"
    "list_all plain_element [''___vue'', ''reactivity'']"
    "files (fst (repackTarballAsZip world_echo (fs_downloaded ''/tmp/npmgop123/@vue_reactivity'')
            ''/tmp/npmgop123/@vue_reactivity'' (example_Version ''@vue/reactivity'' ''v1.0.2'')))
         ''/tmp/npmgop123/@vue_reactivity.zip''
       = Some ''gohugo.io/npmjs/___vue/reactivity v1.0.2''"
    by code_simp+
  from e pl r scoped show ?thesis by (simp add: n ModPathBase_def)
qed



end
